theory Spec2Isabelle
  imports Complex_Main "HOL-Library.Log_Nat"
begin

section \<open>Double-precision numbers\<close>

text \<open>
  The numbers of the source are IEEE 754 doubles: a finite double is modelled by the
  rational it denotes, beside the two infinities and \<^verbatim>\<open>NaN\<close>. The sign of zero is not
  kept: it shows only in a division by zero, and the one divisor of the engine, the
  collection size, is a number of the cloned document, where \<^verbatim>\<open>-0\<close> is written \<^verbatim>\<open>0\<close>.
\<close>

datatype double = Finite rat | PInf | NInf | NaN

text \<open>
  Rounding to nearest, ties to the even significand. \<open>fl\<close> rounds to 53 significant bits
  whatever the exponent; \<open>rd\<close> is \<open>fl\<close> with gradual underflow, the spacing
  \<open>1 / 2 ^ 1074\<close> below the least normal number \<open>1 / 2 ^ 1022\<close>; \<open>rnd\<close> is the rounding of
  an exact result to a double, with overflow to an infinity from \<open>2 ^ 1024\<close> on.
\<close>

definition expo :: "rat \<Rightarrow> int" where
  "expo x = (if 1 \<le> x then bitlen \<lfloor>x\<rfloor> - 1 else - bitlen (\<lceil>1 / x\<rceil> - 1))"

definition ulp :: "rat \<Rightarrow> rat" where
  "ulp x = 2 powi (expo x - 52)"

definition rne :: "rat \<Rightarrow> int" where
  "rne y = (let f = \<lfloor>y\<rfloor>; d = y - of_int f
            in if d < 1 / 2 then f else if 1 / 2 < d then f + 1
               else if even f then f else f + 1)"

definition fl :: "rat \<Rightarrow> rat" where
  "fl x = (if x = 0 then 0
           else if 0 < x then of_int (rne (x / ulp x)) * ulp x
           else - (of_int (rne (- x / ulp (- x))) * ulp (- x)))"

definition minNormal :: rat where
  "minNormal = 1 / 2 ^ 1022"

definition overflowAt :: rat where
  "overflowAt = 2 ^ 1024"

definition rd :: "rat \<Rightarrow> rat" where
  "rd x = (if \<bar>x\<bar> < minNormal then of_int (rne (x * 2 ^ 1074)) / 2 ^ 1074 else fl x)"

definition rnd :: "rat \<Rightarrow> double" where
  "rnd x = (if overflowAt \<le> rd x then PInf
            else if rd x \<le> - overflowAt then NInf
            else Finite (rd x))"

text \<open>
  The operators \<^verbatim>\<open>+\<close>, \<^verbatim>\<open>-\<close>, \<^verbatim>\<open>*\<close>, \<^verbatim>\<open>/\<close>, \<^verbatim>\<open><=\<close>, \<^verbatim>\<open><\<close>, \<^verbatim>\<open>!==\<close> and
  \<^verbatim>\<open>Math.floor\<close> on doubles.
\<close>

fun dadd :: "double \<Rightarrow> double \<Rightarrow> double" where
  "dadd NaN b = NaN"
| "dadd a NaN = NaN"
| "dadd PInf NInf = NaN"
| "dadd NInf PInf = NaN"
| "dadd PInf b = PInf"
| "dadd a PInf = PInf"
| "dadd NInf b = NInf"
| "dadd a NInf = NInf"
| "dadd (Finite x) (Finite y) = rnd (x + y)"

fun dneg :: "double \<Rightarrow> double" where
  "dneg (Finite x) = Finite (- x)"
| "dneg PInf = NInf"
| "dneg NInf = PInf"
| "dneg NaN = NaN"

definition dsub :: "double \<Rightarrow> double \<Rightarrow> double" where
  "dsub a b = dadd a (dneg b)"

fun dmul :: "double \<Rightarrow> double \<Rightarrow> double" where
  "dmul NaN b = NaN"
| "dmul a NaN = NaN"
| "dmul (Finite x) (Finite y) = rnd (x * y)"
| "dmul (Finite x) PInf = (if x = 0 then NaN else if 0 < x then PInf else NInf)"
| "dmul (Finite x) NInf = (if x = 0 then NaN else if 0 < x then NInf else PInf)"
| "dmul PInf (Finite y) = (if y = 0 then NaN else if 0 < y then PInf else NInf)"
| "dmul NInf (Finite y) = (if y = 0 then NaN else if 0 < y then NInf else PInf)"
| "dmul PInf PInf = PInf"
| "dmul PInf NInf = NInf"
| "dmul NInf PInf = NInf"
| "dmul NInf NInf = PInf"

fun ddiv :: "double \<Rightarrow> double \<Rightarrow> double" where
  "ddiv NaN b = NaN"
| "ddiv a NaN = NaN"
| "ddiv (Finite x) (Finite y) =
     (if y = 0 then (if x = 0 then NaN else if 0 < x then PInf else NInf) else rnd (x / y))"
| "ddiv (Finite x) PInf = Finite 0"
| "ddiv (Finite x) NInf = Finite 0"
| "ddiv PInf (Finite y) = (if 0 \<le> y then PInf else NInf)"
| "ddiv NInf (Finite y) = (if 0 \<le> y then NInf else PInf)"
| "ddiv a b = NaN"

fun dle :: "double \<Rightarrow> double \<Rightarrow> bool" where
  "dle NaN b = False"
| "dle a NaN = False"
| "dle NInf b = True"
| "dle a PInf = True"
| "dle (Finite x) (Finite y) = (x \<le> y)"
| "dle a b = False"


definition dne :: "double \<Rightarrow> double \<Rightarrow> bool" where
  "dne a b \<longleftrightarrow> a = NaN \<or> b = NaN \<or> a \<noteq> b"

fun dfloor :: "double \<Rightarrow> double" where
  "dfloor (Finite x) = Finite (of_int \<lfloor>x\<rfloor>)"
| "dfloor a = a"

text \<open>The double that a whole number of a configuration is.\<close>

definition num :: "int \<Rightarrow> double" where
  "num n = Finite (of_int n)"

section \<open>Configuration documents\<close>

text \<open>
  \<^verbatim>\<open>loadConfig\<close> deep-clones its argument with
  \<^verbatim>\<open>JSON.parse(JSON.stringify(configData))\<close>, so what \<^verbatim>\<open>validateConfig\<close> inspects is a JSON
  value. Objects are association lists with distinct keys; numbers are the rationals that
  are doubles.
\<close>

datatype json =
    JNull
  | JBool bool
  | JNum rat
  | JStr string
  | JArr "json list"
  | JObj "(string \<times> json) list"

text \<open>
  Property read \<^verbatim>\<open>x.k\<close> on a value that is not \<^verbatim>\<open>null\<close>; \<open>None\<close> is
  \<^verbatim>\<open>undefined\<close>. Arrays and strings answer \<^verbatim>\<open>length\<close>.
\<close>

fun getProp :: "json \<Rightarrow> string \<Rightarrow> json option" where
  "getProp (JObj kvs) k = map_of kvs k"
| "getProp (JArr xs) k = (if k = ''length'' then Some (JNum (of_nat (length xs))) else None)"
| "getProp (JStr s) k = (if k = ''length'' then Some (JNum (of_nat (length s))) else None)"
| "getProp _ k = None"

fun truthy :: "json option \<Rightarrow> bool" where
  "truthy None = False"
| "truthy (Some JNull) = False"
| "truthy (Some (JBool b)) = b"
| "truthy (Some (JNum n)) = (n \<noteq> 0)"
| "truthy (Some (JStr s)) = (s \<noteq> [])"
| "truthy (Some (JArr xs)) = True"
| "truthy (Some (JObj kvs)) = True"

fun isNumber :: "json option \<Rightarrow> bool" where
  "isNumber (Some (JNum n)) = True"
| "isNumber _ = False"

fun numberOf :: "json option \<Rightarrow> rat" where
  "numberOf (Some (JNum n)) = n"
| "numberOf _ = 0"

text \<open>\<^verbatim>\<open>a !== b\<close> for a double and a value read from the document.\<close>

fun differs :: "double \<Rightarrow> json option \<Rightarrow> bool" where
  "differs a (Some (JNum n)) = dne a (Finite n)"
| "differs a _ = True"

datatype error =
    InvalidConfig
  | InvalidTier nat
  | ExpectedTraits "json option"
  | UnexpectedTraitName "json option"
  | TraitVariantCount "json option"
  | InvalidVariant nat nat
  | TypeError
  | NoAvailableTiers
  | NoAvailableVariants string string
  | UnknownTier string
  | GenerationIncomplete double
  | TiersRemaining "string list"
  | VariantsRemaining string "string list"
  | FailedAfter nat
  | InvalidCollectionSize
  | InvalidOrMissingTiers
  | InvalidOrMissingTraits

datatype warning =
    TierQuotaWarning double "json option"
  | TraitQuotaWarning "json option" double "json option"
  | AttemptFailed nat error

definition expectedTraitNames :: "string list" where
  "expectedTraitNames = [''socks'', ''shoes'', ''pants'', ''shirt'', ''face'', ''hat'']"

text \<open>The first \<^verbatim>\<open>forEach\<close> of \<^verbatim>\<open>validateConfig\<close>: the tiers, summing their quotas.\<close>

fun validateTiers :: "json list \<Rightarrow> nat \<Rightarrow> double \<Rightarrow> error + double" where
  "validateTiers [] index totalTierQuota = Inr totalTierQuota"
| "validateTiers (tier # rest) index totalTierQuota =
     (if tier = JNull then Inl TypeError
      else if \<not> truthy (getProp tier ''id'') \<or> \<not> truthy (getProp tier ''scoreRange'')
              \<or> \<not> isNumber (getProp tier ''quota'')
      then Inl (InvalidTier index)
      else validateTiers rest (Suc index)
             (dadd totalTierQuota (Finite (numberOf (getProp tier ''quota'')))))"

fun validateVariants :: "json list \<Rightarrow> nat \<Rightarrow> nat \<Rightarrow> double \<Rightarrow> error + double" where
  "validateVariants [] traitIndex variantIndex totalVariantQuota = Inr totalVariantQuota"
| "validateVariants (variant # rest) traitIndex variantIndex totalVariantQuota =
     (if variant = JNull then Inl TypeError
      else if \<not> truthy (getProp variant ''name'') \<or> \<not> truthy (getProp variant ''tier'')
              \<or> \<not> isNumber (getProp variant ''points'') \<or> \<not> isNumber (getProp variant ''quota'')
      then Inl (InvalidVariant traitIndex variantIndex)
      else validateVariants rest traitIndex (Suc variantIndex)
             (dadd totalVariantQuota (Finite (numberOf (getProp variant ''quota'')))))"

text \<open>
  The second \<^verbatim>\<open>forEach\<close>: the traits. The warnings printed before an error are kept,
  as the console has them.
\<close>

fun validateTraits :: "json list \<Rightarrow> nat \<Rightarrow> json option \<Rightarrow> error option \<times> warning list" where
  "validateTraits [] traitIndex collSize = (None, [])"
| "validateTraits (trait # rest) traitIndex collSize =
     (if trait = JNull then (Some TypeError, [])
      else if (case getProp trait ''trait'' of Some (JStr s) \<Rightarrow> s \<notin> set expectedTraitNames | _ \<Rightarrow> True)
      then (Some (UnexpectedTraitName (getProp trait ''trait'')), [])
      else if (case getProp trait ''variants'' of
                 None \<Rightarrow> True
               | Some vs \<Rightarrow> \<not> truthy (Some vs) \<or> getProp vs ''length'' \<noteq> Some (JNum 26))
      then (Some (TraitVariantCount (getProp trait ''trait'')), [])
      else (case getProp trait ''variants'' of
              Some (JArr variants) \<Rightarrow>
                (case validateVariants variants traitIndex 0 (Finite 0) of
                   Inl e \<Rightarrow> (Some e, [])
                 | Inr totalVariantQuota \<Rightarrow>
                     (let w = (if differs totalVariantQuota collSize
                               then [TraitQuotaWarning (getProp trait ''trait'') totalVariantQuota collSize]
                               else []);
                          (e, ws) = validateTraits rest (Suc traitIndex) collSize
                      in (e, w @ ws)))
            | _ \<Rightarrow> (Some TypeError, [])))"

definition validateConfig :: "json \<Rightarrow> error option \<times> warning list" where
  "validateConfig config =
     (if \<not> truthy (Some config) \<or> \<not> truthy (getProp config ''tiers'')
         \<or> \<not> truthy (getProp config ''traits'')
      then (Some InvalidConfig, [])
      else (case (getProp config ''tiers'', getProp config ''traits'') of
              (Some (JArr tiers), Some traits) \<Rightarrow>
                (case validateTiers tiers 0 (Finite 0) of
                   Inl e \<Rightarrow> (Some e, [])
                 | Inr totalTierQuota \<Rightarrow>
                     (let collSize = getProp config ''collectionSize'';
                          w = (if differs totalTierQuota collSize
                               then [TierQuotaWarning totalTierQuota collSize] else [])
                      in if getProp traits ''length''
                            \<noteq> Some (JNum (of_nat (length expectedTraitNames)))
                         then (Some (ExpectedTraits (getProp traits ''length'')), w)
                         else (case traits of
                                 JArr ts \<Rightarrow>
                                   (let (e, ws) = validateTraits ts 0 collSize in (e, w @ ws))
                               | _ \<Rightarrow> (Some TypeError, w))))
            | _ \<Rightarrow> (Some TypeError, [])))"

text \<open>
  \<^verbatim>\<open>RarityConfigLoader.validateBasicStructure\<close>, the check the file loader runs on the same
  document before the engine sees it.
\<close>

definition validateBasicStructure :: "json \<Rightarrow> error option" where
  "validateBasicStructure config =
     (if config = JNull then Some TypeError
      else if \<not> truthy (getProp config ''collectionSize'')
              \<or> \<not> isNumber (getProp config ''collectionSize'')
      then Some InvalidCollectionSize
      else if (case getProp config ''tiers'' of Some (JArr ts) \<Rightarrow> ts = [] | _ \<Rightarrow> True)
      then Some InvalidOrMissingTiers
      else if (case getProp config ''traits'' of Some (JArr ts) \<Rightarrow> ts = [] | _ \<Rightarrow> True)
      then Some InvalidOrMissingTraits
      else None)"

section \<open>The typed configuration and the engine\<close>

text \<open>
  A configuration of the shape the data model describes. Quotas, points and score bounds
  are whole numbers, held as integers; what the source computes from them, the sums,
  products, differences and decrements, is computed on doubles.
\<close>

record tier =
  tier_id :: string
  tier_name :: string
  tier_quota :: int
  scoreRange :: "int \<times> int"

record variant =
  variant_name :: string
  variant_tier :: string
  points :: int
  variant_quota :: int

record traitConfig =
  trait :: string
  variants :: "variant list"

record rarityConfig =
  collectionSize :: int
  tiers :: "tier list"
  traits :: "traitConfig list"

definition tierJson :: "tier \<Rightarrow> json" where
  "tierJson t = JObj [(''id'', JStr (tier_id t)), (''name'', JStr (tier_name t)),
                      (''quota'', JNum (of_int (tier_quota t))),
                      (''scoreRange'', JArr [JNum (of_int (fst (scoreRange t))),
                                             JNum (of_int (snd (scoreRange t)))])]"

definition variantJson :: "variant \<Rightarrow> json" where
  "variantJson v = JObj [(''name'', JStr (variant_name v)), (''tier'', JStr (variant_tier v)),
                         (''points'', JNum (of_int (points v))),
                         (''quota'', JNum (of_int (variant_quota v)))]"

definition traitJson :: "traitConfig \<Rightarrow> json" where
  "traitJson tc = JObj [(''trait'', JStr (trait tc)),
                        (''variants'', JArr (map variantJson (variants tc)))]"

definition configJson :: "rarityConfig \<Rightarrow> json" where
  "configJson c = JObj [(''collectionSize'', JNum (of_int (collectionSize c))),
                        (''tiers'', JArr (map tierJson (tiers c))),
                        (''traits'', JArr (map traitJson (traits c)))]"

text \<open>
  The object state of \<^verbatim>\<open>RarityEngine\<close>, with the console's warning stream beside it.
  \<open>None\<close> is the \<^verbatim>\<open>null\<close> the constructor stores.
\<close>

record engine =
  config :: "rarityConfig option"
  remainingTierQuotas :: "tier list option"
  remainingVariantQuotas :: "traitConfig list option"
  rngSeed :: nat
  tierIdToIndex :: "string \<rightharpoonup> nat"
  variantNameToTraitIndex :: "string \<rightharpoonup> nat"
  console :: "warning list"

definition RarityEngine :: engine where
  "RarityEngine = \<lparr>config = None, remainingTierQuotas = None, remainingVariantQuotas = None,
                    rngSeed = 42, tierIdToIndex = Map.empty,
                    variantNameToTraitIndex = Map.empty, console = []\<rparr>"

definition initializeQuotas :: "engine \<Rightarrow> (error + unit) \<times> engine" where
  "initializeQuotas e =
     (case config e of
        None \<Rightarrow> (Inl TypeError, e)
      | Some c \<Rightarrow> (Inr (), e\<lparr>remainingTierQuotas := Some (tiers c),
                              remainingVariantQuotas := Some (traits c)\<rparr>))"

fun setTierIndices :: "tier list \<Rightarrow> nat \<Rightarrow> (string \<rightharpoonup> nat) \<Rightarrow> (string \<rightharpoonup> nat)" where
  "setTierIndices [] index m = m"
| "setTierIndices (t # rest) index m = setTierIndices rest (Suc index) (m(tier_id t \<mapsto> index))"

fun setVariantNames :: "variant list \<Rightarrow> nat \<Rightarrow> (string \<rightharpoonup> nat) \<Rightarrow> (string \<rightharpoonup> nat)" where
  "setVariantNames [] traitIndex m = m"
| "setVariantNames (v # rest) traitIndex m =
     setVariantNames rest traitIndex (m(variant_name v \<mapsto> traitIndex))"

fun setTraitIndices :: "traitConfig list \<Rightarrow> nat \<Rightarrow> (string \<rightharpoonup> nat) \<Rightarrow> (string \<rightharpoonup> nat)" where
  "setTraitIndices [] traitIndex m = m"
| "setTraitIndices (tc # rest) traitIndex m =
     setTraitIndices rest (Suc traitIndex) (setVariantNames (variants tc) traitIndex m)"

definition buildLookupMaps :: "engine \<Rightarrow> (error + unit) \<times> engine" where
  "buildLookupMaps e =
     (case config e of
        None \<Rightarrow> (Inl TypeError, e)
      | Some c \<Rightarrow>
          (Inr (), e\<lparr>tierIdToIndex := setTierIndices (tiers c) 0 (tierIdToIndex e),
                     variantNameToTraitIndex :=
                       setTraitIndices (traits c) 0 (variantNameToTraitIndex e)\<rparr>))"

definition loadConfig :: "rarityConfig \<Rightarrow> engine \<Rightarrow> (error + unit) \<times> engine" where
  "loadConfig configData e =
     (let e1 = e\<lparr>config := Some configData\<rparr>;
          (err, ws) = validateConfig (configJson configData);
          e2 = e1\<lparr>console := console e1 @ ws\<rparr>
      in case err of
           Some x \<Rightarrow> (Inl x, e2)
         | None \<Rightarrow>
             (case initializeQuotas e2 of
                (Inl x, e3) \<Rightarrow> (Inl x, e3)
              | (Inr u, e3) \<Rightarrow> buildLookupMaps e3))"

text \<open>The engine after \<^verbatim>\<open>new RarityEngine()\<close> and \<^verbatim>\<open>loadConfig(c)\<close>.\<close>

definition loaded :: "rarityConfig \<Rightarrow> engine" where
  "loaded c = snd (loadConfig c RarityEngine)"

subsection \<open>Random draws\<close>

text \<open>The step of the generator on the seed.\<close>

definition nextSeed :: "nat \<Rightarrow> nat" where
  "nextSeed s = (s * 9301 + 49297) mod 233280"

definition seededRandom :: "engine \<Rightarrow> double \<times> engine" where
  "seededRandom e =
     (let s = (rngSeed e * 9301 + 49297) mod 233280
      in (rnd (of_nat s / 233280), e\<lparr>rngSeed := s\<rparr>))"

subsection \<open>Tier selection\<close>

definition bellCurveMultiplier :: "string \<Rightarrow> double" where
  "bellCurveMultiplier i =
     (if i = ''T1'' \<or> i = ''T9'' then rnd (5 / 10)
      else if i = ''T2'' \<or> i = ''T8'' then rnd (7 / 10)
      else if i = ''T3'' \<or> i = ''T7'' then rnd (12 / 10)
      else if i = ''T4'' \<or> i = ''T6'' then rnd (18 / 10)
      else if i = ''T5'' then rnd (25 / 10)
      else Finite 1)"

definition tierWeight :: "tier \<Rightarrow> double" where
  "tierWeight t = dfloor (dmul (num (tier_quota t)) (bellCurveMultiplier (tier_id t)))"

text \<open>
  The \<^verbatim>\<open>for\<close> loop over the weighted tiers; \<open>None\<close> when it ends without a
  \<^verbatim>\<open>return\<close>.
\<close>

fun tierLoop :: "double \<Rightarrow> (tier \<times> double) list \<Rightarrow> string option" where
  "tierLoop random [] = None"
| "tierLoop random ((t, weight) # rest) =
     (let random' = dsub random weight
      in if dle random' (Finite 0) then Some (tier_id t) else tierLoop random' rest)"

definition selectTierWeighted :: "engine \<Rightarrow> (error + string) \<times> engine" where
  "selectTierWeighted e =
     (case remainingTierQuotas e of
        None \<Rightarrow> (Inl TypeError, e)
      | Some rtq \<Rightarrow>
          (let availableTiers = filter (\<lambda>t. 0 < tier_quota t) rtq
           in if availableTiers = [] then (Inl NoAvailableTiers, e)
              else (let weightedTiers = map (\<lambda>t. (t, tierWeight t)) availableTiers;
                        totalWeight = foldl (\<lambda>total p. dadd total (snd p)) (Finite 0)
                                        weightedTiers;
                        (r, e') = seededRandom e;
                        random = dmul r totalWeight
                    in case tierLoop random weightedTiers of
                         Some i \<Rightarrow> (Inr i, e')
                       | None \<Rightarrow> (Inr (tier_id (hd availableTiers)), e'))))"

definition getTierById :: "engine \<Rightarrow> string \<Rightarrow> error + tier" where
  "getTierById e tierId =
     (case config e of
        None \<Rightarrow> Inl TypeError
      | Some c \<Rightarrow>
          (case find (\<lambda>t. tier_id t = tierId) (tiers c) of
             None \<Rightarrow> Inl (UnknownTier tierId)
           | Some t \<Rightarrow> Inr t))"

subsection \<open>Variant selection\<close>

record item =
  item_trait :: string
  item_variant :: variant

fun variantLoop :: "double \<Rightarrow> variant list \<Rightarrow> variant option" where
  "variantLoop random [] = None"
| "variantLoop random (v # rest) =
     (let random' = dsub random (num (variant_quota v))
      in if dle random' (Finite 0) then Some v else variantLoop random' rest)"

text \<open>
  The loop over the traits of \<^verbatim>\<open>selectVariantsForTier\<close>. An item holds the variant as it
  is when selected; in the source it is the object of the quota store itself, whose quota
  field reads the counter after the commit. Name, tier and points never change.
\<close>

fun selectLoop :: "string \<Rightarrow> traitConfig list \<Rightarrow> item list \<Rightarrow> engine
                     \<Rightarrow> (error + item list) \<times> engine" where
  "selectLoop targetTierId [] selectedVariants e = (Inr selectedVariants, e)"
| "selectLoop targetTierId (tc # rest) selectedVariants e =
     (let availableVariants =
            filter (\<lambda>v. variant_tier v = targetTierId \<and> 0 < variant_quota v) (variants tc)
      in if availableVariants = []
         then (Inl (NoAvailableVariants (trait tc) targetTierId), e)
         else (let totalWeight = foldl (\<lambda>total v. dadd total (num (variant_quota v)))
                                   (Finite 0) availableVariants;
                   (r, e') = seededRandom e;
                   random = dmul r totalWeight;
                   selectedVariant = (case variantLoop random availableVariants of
                                        Some v \<Rightarrow> v
                                      | None \<Rightarrow> hd availableVariants)
               in selectLoop targetTierId rest
                    (selectedVariants @ [\<lparr>item_trait = trait tc, item_variant = selectedVariant\<rparr>])
                    e'))"

definition selectVariantsForTier :: "string \<Rightarrow> engine \<Rightarrow> (error + item list) \<times> engine" where
  "selectVariantsForTier targetTierId e =
     (case remainingVariantQuotas e of
        None \<Rightarrow> (Inl TypeError, e)
      | Some rvq \<Rightarrow> selectLoop targetTierId rvq [] e)"

subsection \<open>Score and commit\<close>

definition calculateScore :: "item list \<Rightarrow> double" where
  "calculateScore selectedVariants =
     foldl (\<lambda>total item. dadd total (num (points (item_variant item)))) (Finite 0)
       selectedVariants"

definition isScoreInTierRange :: "engine \<Rightarrow> double \<Rightarrow> string \<Rightarrow> error + bool" where
  "isScoreInTierRange e score tierId =
     (case getTierById e tierId of
        Inl x \<Rightarrow> Inl x
      | Inr t \<Rightarrow> Inr (dle (num (fst (scoreRange t))) score
                       \<and> dle score (num (snd (scoreRange t)))))"

text \<open>
  \<^verbatim>\<open>quota--\<close> on a counter: one less, rounded to a double. A counter is finite and stays
  finite, and the rounded difference of whole numbers is whole.
\<close>

definition decrement :: "int \<Rightarrow> int" where
  "decrement q = \<lfloor>rd (of_int q - 1)\<rfloor>"

fun findIndex :: "('a \<Rightarrow> bool) \<Rightarrow> 'a list \<Rightarrow> nat option" where
  "findIndex p [] = None"
| "findIndex p (x # xs) = (if p x then Some 0 else map_option Suc (findIndex p xs))"

definition decrementVariant :: "nat \<Rightarrow> nat \<Rightarrow> traitConfig list \<Rightarrow> traitConfig list" where
  "decrementVariant traitIndex variantIndex rvq =
     (let tc = rvq ! traitIndex; v = variants tc ! variantIndex
      in rvq[traitIndex := tc\<lparr>variants :=
               (variants tc)[variantIndex := v\<lparr>variant_quota := decrement (variant_quota v)\<rparr>]\<rparr>])"

text \<open>
  The \<^verbatim>\<open>forEach\<close> of \<^verbatim>\<open>decrementQuotas\<close>. A lookup that finds nothing makes the source
  read a property of \<^verbatim>\<open>undefined\<close>; the decrements made before it stay.
\<close>

fun decrementVariants :: "item list \<Rightarrow> engine \<Rightarrow> (error + unit) \<times> engine" where
  "decrementVariants [] e = (Inr (), e)"
| "decrementVariants (item # rest) e =
     (case (variantNameToTraitIndex e (variant_name (item_variant item)),
            remainingVariantQuotas e) of
        (Some traitIndex, Some rvq) \<Rightarrow>
          (if traitIndex < length rvq
           then (case findIndex (\<lambda>v. variant_name v = variant_name (item_variant item))
                        (variants (rvq ! traitIndex)) of
                   Some variantIndex \<Rightarrow>
                     decrementVariants rest
                       (e\<lparr>remainingVariantQuotas :=
                            Some (decrementVariant traitIndex variantIndex rvq)\<rparr>)
                 | None \<Rightarrow> (Inl TypeError, e))
           else (Inl TypeError, e))
      | _ \<Rightarrow> (Inl TypeError, e))"

definition decrementQuotas :: "string \<Rightarrow> item list \<Rightarrow> engine \<Rightarrow> (error + unit) \<times> engine" where
  "decrementQuotas tierId selectedVariants e =
     (case (tierIdToIndex e tierId, remainingTierQuotas e) of
        (Some tierIndex, Some rtq) \<Rightarrow>
          (if tierIndex < length rtq
           then decrementVariants selectedVariants
                  (e\<lparr>remainingTierQuotas :=
                       Some (rtq[tierIndex := (rtq ! tierIndex)
                                   \<lparr>tier_quota := decrement (tier_quota (rtq ! tierIndex))\<rparr>])\<rparr>)
           else (Inl TypeError, e))
      | _ \<Rightarrow> (Inl TypeError, e))"

subsection \<open>Generating one item\<close>

datatype GenerationResult =
    success: Success (tierId: string) (tierName: string) (score: double)
                     (selected: "item list") (attempts: nat)
  | Failure (failure: error) (attempts: nat)

text \<open>
  The body of the \<^verbatim>\<open>try\<close> block: \<open>Inr (Some r)\<close> is its \<^verbatim>\<open>return\<close>,
  \<open>Inr None\<close> a score outside the range, \<open>Inl\<close> a thrown error.
\<close>

definition attempt :: "nat \<Rightarrow> engine \<Rightarrow> (error + GenerationResult option) \<times> engine" where
  "attempt n e =
     (case selectTierWeighted e of
        (Inl x, e1) \<Rightarrow> (Inl x, e1)
      | (Inr targetTierId, e1) \<Rightarrow>
          (case selectVariantsForTier targetTierId e1 of
             (Inl x, e2) \<Rightarrow> (Inl x, e2)
           | (Inr selectedVariants, e2) \<Rightarrow>
               (let totalScore = calculateScore selectedVariants
                in case isScoreInTierRange e2 totalScore targetTierId of
                     Inl x \<Rightarrow> (Inl x, e2)
                   | Inr False \<Rightarrow> (Inr None, e2)
                   | Inr True \<Rightarrow>
                       (case decrementQuotas targetTierId selectedVariants e2 of
                          (Inl x, e3) \<Rightarrow> (Inl x, e3)
                        | (Inr u, e3) \<Rightarrow>
                            (case getTierById e3 targetTierId of
                               Inl x \<Rightarrow> (Inl x, e3)
                             | Inr tierInfo \<Rightarrow>
                                 (Inr (Some (Success targetTierId (tier_name tierInfo) totalScore
                                               selectedVariants (n + 1))), e3))))))"

function generateLoop :: "nat \<Rightarrow> nat \<Rightarrow> engine \<Rightarrow> GenerationResult \<times> engine" where
  "generateLoop maxRetries n e =
     (if n < maxRetries
      then (case attempt n e of
              (Inr (Some r), e') \<Rightarrow> (r, e')
            | (Inr None, e') \<Rightarrow> generateLoop maxRetries (n + 1) e'
            | (Inl x, e') \<Rightarrow>
                generateLoop maxRetries (n + 1)
                  (e'\<lparr>console := console e' @ [AttemptFailed (n + 1) x]\<rparr>))
      else (Failure (FailedAfter maxRetries) n, e))"
  by pat_completeness auto
termination
  by (relation "measure (\<lambda>(maxRetries, n, e). maxRetries - n)") auto

definition generateNFT :: "nat \<Rightarrow> engine \<Rightarrow> GenerationResult \<times> engine" where
  "generateNFT maxRetries e = generateLoop maxRetries 0 e"

text \<open>A batch: \<open>k\<close> calls of \<^verbatim>\<open>generateNFT()\<close> with the default ceiling.\<close>

fun generateMany :: "nat \<Rightarrow> engine \<Rightarrow> GenerationResult list \<times> engine" where
  "generateMany 0 e = ([], e)"
| "generateMany (Suc k) e =
     (let (r, e') = generateNFT 100 e; (rs, e'') = generateMany k e' in (r # rs, e''))"

subsection \<open>Status and completion\<close>

record tierStatus =
  status_id :: string
  status_name :: string
  remaining :: int
  originalQuota :: int

record generationStatus =
  totalGenerated :: double
  totalRemaining :: double
  status_collectionSize :: int
  progress :: double
  tierStatuses :: "tierStatus list"

fun statusOfTiers :: "rarityConfig \<Rightarrow> tier list \<Rightarrow> error + tierStatus list" where
  "statusOfTiers c [] = Inr []"
| "statusOfTiers c (t # rest) =
     (case find (\<lambda>t'. tier_id t' = tier_id t) (tiers c) of
        None \<Rightarrow> Inl TypeError
      | Some t' \<Rightarrow>
          (case statusOfTiers c rest of
             Inl x \<Rightarrow> Inl x
           | Inr ss \<Rightarrow> Inr (\<lparr>status_id = tier_id t, status_name = tier_name t,
                               remaining = tier_quota t, originalQuota = tier_quota t'\<rparr> # ss)))"

text \<open>\<^verbatim>\<open>getGenerationStatus\<close>: the counters are added up as doubles, from the left.\<close>

definition getGenerationStatus :: "engine \<Rightarrow> error + generationStatus" where
  "getGenerationStatus e =
     (case (remainingTierQuotas e, config e) of
        (Some rtq, Some c) \<Rightarrow>
          (let totalRemaining = foldl (\<lambda>total t. dadd total (num (tier_quota t))) (Finite 0) rtq;
               totalGenerated = dsub (num (collectionSize c)) totalRemaining
           in case statusOfTiers c rtq of
                Inl x \<Rightarrow> Inl x
              | Inr ss \<Rightarrow> Inr \<lparr>totalGenerated = totalGenerated, totalRemaining = totalRemaining,
                                status_collectionSize = collectionSize c,
                                progress = dmul (ddiv totalGenerated (num (collectionSize c)))
                                             (Finite 100),
                                tierStatuses = ss\<rparr>)
      | _ \<Rightarrow> Inl TypeError)"

fun checkVariantQuotas :: "traitConfig list \<Rightarrow> error + bool" where
  "checkVariantQuotas [] = Inr True"
| "checkVariantQuotas (tc # rest) =
     (let nonZeroVariants = filter (\<lambda>v. 0 < variant_quota v) (variants tc)
      in if nonZeroVariants \<noteq> []
         then Inl (VariantsRemaining (trait tc) (map variant_name nonZeroVariants))
         else checkVariantQuotas rest)"

definition validateFinalGeneration :: "engine \<Rightarrow> error + bool" where
  "validateFinalGeneration e =
     (case getGenerationStatus e of
        Inl x \<Rightarrow> Inl x
      | Inr status \<Rightarrow>
          (if dne (totalRemaining status) (Finite 0)
           then Inl (GenerationIncomplete (totalRemaining status))
           else (case (remainingTierQuotas e, remainingVariantQuotas e) of
                   (Some rtq, Some rvq) \<Rightarrow>
                     (let nonZeroTiers = filter (\<lambda>t. 0 < tier_quota t) rtq
                      in if nonZeroTiers \<noteq> []
                         then Inl (TiersRemaining (map tier_id nonZeroTiers))
                         else checkVariantQuotas rvq)
                 | _ \<Rightarrow> Inl TypeError)))"


section \<open>Example configurations\<close>

text \<open>
  Configurations of the size \<^verbatim>\<open>validateConfig\<close> accepts: six traits of 26 variants.
  Each trait's variants are made from the 26 letters by a naming function.
\<close>

definition letters :: "string list" where
  "letters = map (\<lambda>c. [c]) ''abcdefghijklmnopqrstuvwxyz''"

definition traitsOf :: "(string \<Rightarrow> string \<Rightarrow> variant) \<Rightarrow> traitConfig list" where
  "traitsOf f = map (\<lambda>t. \<lparr>trait = t, variants = map (f t) letters\<rparr>) expectedTraitNames"

text \<open>
  One tier of one item. In \<open>ownNames\<close> a variant is named after its trait and letter;
  in \<open>sharedNames\<close> by its letter alone, so that every trait has a variant \<open>a\<close>.
\<close>

definition ownNames :: rarityConfig where
  "ownNames =
     \<lparr>collectionSize = 1,
      tiers = [\<lparr>tier_id = ''T5'', tier_name = ''Common'', tier_quota = 1,
                scoreRange = (0, 100)\<rparr>],
      traits = traitsOf (\<lambda>t n. \<lparr>variant_name = t @ ''_'' @ n, variant_tier = ''T5'',
                                   points = 1,
                                   variant_quota = (if n = ''a'' then 1 else 0)\<rparr>)\<rparr>"

definition sharedNames :: rarityConfig where
  "sharedNames =
     \<lparr>collectionSize = 1,
      tiers = [\<lparr>tier_id = ''T5'', tier_name = ''Common'', tier_quota = 1,
                scoreRange = (0, 100)\<rparr>],
      traits = traitsOf (\<lambda>t n. \<lparr>variant_name = n, variant_tier = ''T5'', points = 1,
                                   variant_quota = (if n = ''a'' then 1 else 0)\<rparr>)\<rparr>"

text \<open>The items selected from \<open>ownNames\<close> for its tier: the variant \<open>a\<close> of every trait.\<close>

definition ownSelection :: "item list" where
  "ownSelection =
     map (\<lambda>t. \<lparr>item_trait = t,
                item_variant = \<lparr>variant_name = t @ ''_a'', variant_tier = ''T5'', points = 1,
                                 variant_quota = 1\<rparr>\<rparr>) expectedTraitNames"

text \<open>The engine loaded with \<open>ownNames\<close> after its one item has been generated.\<close>

definition ownDone :: engine where
  "ownDone = (loaded ownNames)
     \<lparr>remainingTierQuotas := Some [\<lparr>tier_id = ''T5'', tier_name = ''Common'', tier_quota = 0,
                                    scoreRange = (0, 100)\<rparr>],
      remainingVariantQuotas :=
        Some (traitsOf (\<lambda>t n. \<lparr>variant_name = t @ ''_'' @ n, variant_tier = ''T5'',
                                 points = 1, variant_quota = 0\<rparr>)),
      rngSeed := 139021\<rparr>"

text \<open>
  The items selected from \<open>sharedNames\<close>, and the engine loaded with \<open>sharedNames\<close>
  after that item has been generated.
\<close>

definition sharedSelection :: "item list" where
  "sharedSelection =
     map (\<lambda>t. \<lparr>item_trait = t,
                item_variant = \<lparr>variant_name = ''a'', variant_tier = ''T5'', points = 1,
                                 variant_quota = 1\<rparr>\<rparr>) expectedTraitNames"

definition sharedDone :: engine where
  "sharedDone = (loaded sharedNames)
     \<lparr>remainingTierQuotas := Some [\<lparr>tier_id = ''T5'', tier_name = ''Common'', tier_quota = 0,
                                    scoreRange = (0, 100)\<rparr>],
      remainingVariantQuotas :=
        Some (traitsOf (\<lambda>t n. \<lparr>variant_name = n, variant_tier = ''T5'', points = 1,
                                 variant_quota = (if n = ''a''
                                                  then (if t = ''hat'' then - 5 else 1)
                                                  else 0)\<rparr>)),
      rngSeed := 139021\<rparr>"


text \<open>
  No item left to generate in the tier, and one variant, \<open>a\<close> of \<open>hat\<close>, with
  quota 1.
\<close>

definition oneLeft :: rarityConfig where
  "oneLeft =
     \<lparr>collectionSize = 0,
      tiers = [\<lparr>tier_id = ''T5'', tier_name = ''Common'', tier_quota = 0,
                scoreRange = (0, 100)\<rparr>],
      traits = traitsOf (\<lambda>t n. \<lparr>variant_name = t @ ''_'' @ n, variant_tier = ''T5'',
                                   points = 1,
                                   variant_quota = (if t = ''hat'' \<and> n = ''a'' then 1 else 0)\<rparr>)\<rparr>"

text \<open>
  One item whose first variant has \<open>2 ^ 53\<close> points and the five others 1 point, in a
  tier whose score range is the single value \<open>2 ^ 53\<close>; the items selected from it.
\<close>

definition bigPoints :: rarityConfig where
  "bigPoints =
     \<lparr>collectionSize = 1,
      tiers = [\<lparr>tier_id = ''T5'', tier_name = ''Common'', tier_quota = 1,
                scoreRange = (2 ^ 53, 2 ^ 53)\<rparr>],
      traits = traitsOf (\<lambda>t n. \<lparr>variant_name = t @ ''_'' @ n, variant_tier = ''T5'',
                                   points = (if t = ''socks'' then 2 ^ 53 else 1),
                                   variant_quota = (if n = ''a'' then 1 else 0)\<rparr>)\<rparr>"

definition bigSelection :: "item list" where
  "bigSelection =
     map (\<lambda>t. \<lparr>item_trait = t,
                item_variant = \<lparr>variant_name = t @ ''_a'', variant_tier = ''T5'',
                                 points = (if t = ''socks'' then 2 ^ 53 else 1),
                                 variant_quota = 1\<rparr>\<rparr>) expectedTraitNames"

text \<open>The engine loaded with \<open>bigPoints\<close> after its one item has been generated.\<close>

definition bigDone :: engine where
  "bigDone = (loaded bigPoints)
     \<lparr>remainingTierQuotas := Some [\<lparr>tier_id = ''T5'', tier_name = ''Common'', tier_quota = 0,
                                    scoreRange = (2 ^ 53, 2 ^ 53)\<rparr>],
      remainingVariantQuotas :=
        Some (traitsOf (\<lambda>t n. \<lparr>variant_name = t @ ''_'' @ n, variant_tier = ''T5'',
                                 points = (if t = ''socks'' then 2 ^ 53 else 1),
                                 variant_quota = 0\<rparr>)),
      rngSeed := 139021\<rparr>"



text \<open>The configuration \<open>ownNames\<close> with its list of tiers emptied.\<close>

definition noTiers :: rarityConfig where
  "noTiers = ownNames\<lparr>tiers := []\<rparr>"

section \<open>Predicates of the statements\<close>

text \<open>
  What \<^verbatim>\<open>validateConfig\<close> asks of a configuration of the typed shape: identifiers that
  are not empty, six traits with expected names, 26 variants each.
\<close>

definition variantOk :: "variant \<Rightarrow> bool" where
  "variantOk v \<longleftrightarrow> variant_name v \<noteq> [] \<and> variant_tier v \<noteq> []"

definition traitOk :: "traitConfig \<Rightarrow> bool" where
  "traitOk tc \<longleftrightarrow> trait tc \<in> set expectedTraitNames \<and> length (variants tc) = 26
                 \<and> list_all variantOk (variants tc)"

definition wellTyped :: "rarityConfig \<Rightarrow> bool" where
  "wellTyped c \<longleftrightarrow> list_all (\<lambda>t. tier_id t \<noteq> []) (tiers c) \<and> length (traits c) = 6
                  \<and> list_all traitOk (traits c)"

text \<open>
  The entries of a document that \<^verbatim>\<open>validateConfig\<close> does not let pass: a tier without an
  id, a score range or a numeric quota; a variant without a name, a tier, numeric points or
  a numeric quota; a trait with an unexpected name, without 26 variants, or with such a
  variant.
\<close>

definition badTier :: "json \<Rightarrow> bool" where
  "badTier t \<longleftrightarrow> t = JNull \<or> \<not> truthy (getProp t ''id'') \<or> \<not> truthy (getProp t ''scoreRange'')
                 \<or> \<not> isNumber (getProp t ''quota'')"

definition badVariant :: "json \<Rightarrow> bool" where
  "badVariant v \<longleftrightarrow> v = JNull \<or> \<not> truthy (getProp v ''name'') \<or> \<not> truthy (getProp v ''tier'')
                    \<or> \<not> isNumber (getProp v ''points'') \<or> \<not> isNumber (getProp v ''quota'')"

definition badTrait :: "json \<Rightarrow> bool" where
  "badTrait tr \<longleftrightarrow>
     tr = JNull
     \<or> (case getProp tr ''trait'' of Some (JStr s) \<Rightarrow> s \<notin> set expectedTraitNames | _ \<Rightarrow> True)
     \<or> (case getProp tr ''variants'' of
           Some (JArr vs) \<Rightarrow> length vs \<noteq> 26 \<or> list_ex badVariant vs
         | _ \<Rightarrow> True)"

text \<open>
  An item selected for a tier from a trait of the quota store: it carries the trait's name
  and one of its variants, tagged for the tier, with quota left.
\<close>

definition selectedFrom :: "string \<Rightarrow> traitConfig \<Rightarrow> item \<Rightarrow> bool" where
  "selectedFrom targetTierId tc it \<longleftrightarrow>
     item_trait it = trait tc \<and> item_variant it \<in> set (variants tc)
     \<and> variant_tier (item_variant it) = targetTierId \<and> 0 < variant_quota (item_variant it)"

text \<open>
  Two variant records that differ at most in the quota, and a quota store that is the
  configuration's list of traits up to the quotas.
\<close>

definition sameVariant :: "variant \<Rightarrow> variant \<Rightarrow> bool" where
  "sameVariant v v' \<longleftrightarrow>
     variant_name v = variant_name v' \<and> variant_tier v = variant_tier v' \<and> points v = points v'"

definition sameTrait :: "traitConfig \<Rightarrow> traitConfig \<Rightarrow> bool" where
  "sameTrait tc tc' \<longleftrightarrow> trait tc = trait tc' \<and> list_all2 sameVariant (variants tc) (variants tc')"

definition mirrorsConfig :: "engine \<Rightarrow> bool" where
  "mirrorsConfig e \<longleftrightarrow>
     (case (config e, remainingVariantQuotas e) of
        (Some c, Some rvq) \<Rightarrow> list_all2 sameTrait (traits c) rvq
      | _ \<Rightarrow> False)"

text \<open>
  The sum of a list of whole numbers as the source's \<^verbatim>\<open>reduce\<close> forms it: doubles added
  from the left, starting from 0.
\<close>

definition doubleSum :: "int list \<Rightarrow> double" where
  "doubleSum ns = foldl (\<lambda>total n. dadd total (num n)) (Finite 0) ns"

text \<open>
  A successful result scored within its tier: the score is the double sum of the points of
  the selected variants, which is their sum when the magnitudes of the points add up to at
  most \<open>2 ^ 53\<close>; the tier of the result is a tier of the configuration whose range holds
  the score; and the selections are, trait by trait in the configuration's order, variants
  the configuration lists for that trait, tagged for the tier.
\<close>

definition scoredWithin :: "rarityConfig \<Rightarrow> GenerationResult \<Rightarrow> bool" where
  "scoredWithin c r \<longleftrightarrow>
     score r = doubleSum (map (\<lambda>it. points (item_variant it)) (selected r))
     \<and> (sum_list (map (\<lambda>it. \<bar>points (item_variant it)\<bar>) (selected r)) \<le> 2 ^ 53
          \<longrightarrow> score r = num (sum_list (map (\<lambda>it. points (item_variant it)) (selected r))))
     \<and> (case find (\<lambda>t. tier_id t = tierId r) (tiers c) of
          None \<Rightarrow> False
        | Some t \<Rightarrow> tierName r = tier_name t
                    \<and> dle (num (fst (scoreRange t))) (score r)
                    \<and> dle (score r) (num (snd (scoreRange t))))
     \<and> list_all2 (\<lambda>tc it. item_trait it = trait tc
                           \<and> variant_tier (item_variant it) = tierId r
                           \<and> (\<exists>v\<in>set (variants tc). sameVariant v (item_variant it)))
          (traits c) (selected r)"

text \<open>
  The commit in the specification's words: the counter of the chosen tier goes down by
  one, in each trait the counter of the chosen variant goes down by one, and every other
  counter stays. One less is \<open>decrement\<close>, the double next to it.
\<close>

definition commitTier :: "string \<Rightarrow> tier list \<Rightarrow> tier list" where
  "commitTier tid rtq =
     map (\<lambda>t. if tier_id t = tid then t\<lparr>tier_quota := decrement (tier_quota t)\<rparr> else t) rtq"

definition commitTrait :: "traitConfig \<Rightarrow> item \<Rightarrow> traitConfig" where
  "commitTrait tc it =
     tc\<lparr>variants := map (\<lambda>v. if v = item_variant it
                              then v\<lparr>variant_quota := decrement (variant_quota v)\<rparr> else v)
                        (variants tc)\<rparr>"

text \<open>
  The variant names of a quota store, trait by trait, and an engine in which every tier id
  and every variant name is used once and the lookup maps lead from each id to the
  position of its tier and from each name to the position of its trait.
\<close>

definition namesOf :: "traitConfig list \<Rightarrow> string list list" where
  "namesOf rvq = map (\<lambda>tc. map variant_name (variants tc)) rvq"

definition indexedBy :: "(string \<rightharpoonup> nat) \<Rightarrow> (string \<rightharpoonup> nat) \<Rightarrow> string list
                         \<Rightarrow> string list list \<Rightarrow> bool" where
  "indexedBy tm vm ids names \<longleftrightarrow>
     distinct ids \<and> distinct (concat names)
     \<and> list_all (\<lambda>i. tm (ids ! i) = Some i) [0..<length ids]
     \<and> list_all (\<lambda>i. list_all (\<lambda>x. vm x = Some i) (names ! i)) [0..<length names]"

definition indexed :: "engine \<Rightarrow> bool" where
  "indexed e \<longleftrightarrow>
     (case (remainingTierQuotas e, remainingVariantQuotas e) of
        (Some rtq, Some rvq) \<Rightarrow>
          indexedBy (tierIdToIndex e) (variantNameToTraitIndex e) (map tier_id rtq) (namesOf rvq)
      | _ \<Rightarrow> False)"

definition nonNegative :: "engine \<Rightarrow> bool" where
  "nonNegative e \<longleftrightarrow>
     (case (remainingTierQuotas e, remainingVariantQuotas e) of
        (Some rtq, Some rvq) \<Rightarrow>
          list_all (\<lambda>t. 0 \<le> tier_quota t) rtq
          \<and> list_all (\<lambda>tc. list_all (\<lambda>v. 0 \<le> variant_quota v) (variants tc)) rvq
      | _ \<Rightarrow> False)"

text \<open>
  The store after a result, against the store \<open>rtq\<close>, \<open>rvq\<close> before it: the result's tier
  had quota left, its items were selected one from each trait, and the store is the old
  one with exactly these committed.
\<close>

definition committed :: "tier list \<Rightarrow> traitConfig list \<Rightarrow> GenerationResult \<Rightarrow> engine \<Rightarrow> bool" where
  "committed rtq rvq res e' \<longleftrightarrow>
     list_ex (\<lambda>t. tier_id t = tierId res \<and> 0 < tier_quota t) rtq
     \<and> list_all2 (selectedFrom (tierId res)) rvq (selected res)
     \<and> remainingTierQuotas e' = Some (commitTier (tierId res) rtq)
     \<and> remainingVariantQuotas e' = Some (map2 commitTrait rvq (selected res))"

definition untouched :: "tier list \<Rightarrow> traitConfig list \<Rightarrow> engine \<Rightarrow> bool" where
  "untouched rtq rvq e' \<longleftrightarrow>
     remainingTierQuotas e' = Some rtq \<and> remainingVariantQuotas e' = Some rvq"

text \<open>The tier ids and variant names that the message of an error lists.\<close>

fun enumerated :: "error \<Rightarrow> string list" where
  "enumerated (TiersRemaining ids) = ids"
| "enumerated (VariantsRemaining t names) = names"
| "enumerated _ = []"


section \<open>The tier selector as specified\<close>





section \<open>Properties of rounding\<close>

lemma rne_of_int: "rne (of_int n) = n"
  by (simp add: rne_def)

lemma rne_bounds: "\<lfloor>y\<rfloor> \<le> rne y \<and> rne y \<le> \<lfloor>y\<rfloor> + 1"
  by (simp add: rne_def Let_def)

lemma rne_mono: "y \<le> z \<Longrightarrow> rne y \<le> rne z"
proof -
  assume yz: "y \<le> z"
  have fl: "\<lfloor>y\<rfloor> \<le> \<lfloor>z\<rfloor>" using yz by (rule floor_mono)
  show ?thesis
  proof (cases "\<lfloor>y\<rfloor> = \<lfloor>z\<rfloor>")
    case True
    with yz show ?thesis by (auto simp: rne_def Let_def)
  next
    case False
    with fl have "\<lfloor>y\<rfloor> + 1 \<le> \<lfloor>z\<rfloor>" by simp
    with rne_bounds [of y] rne_bounds [of z] show ?thesis by linarith
  qed
qed

lemma expo_ge1:
  assumes "1 \<le> x"
  shows "2 powi (expo x) \<le> x \<and> x < 2 powi (expo x + 1)"
proof -
  let ?n = "\<lfloor>x\<rfloor>"
  have n: "0 < ?n" using assms by simp
  have b: "2 ^ nat (bitlen ?n - 1) \<le> ?n" "?n < 2 ^ nat (bitlen ?n)"
    using bitlen_bounds [OF n] by auto
  have bl: "1 \<le> bitlen ?n" using n bitlen_eq_zero_iff [of ?n] bitlen_nonneg [of ?n] by linarith
  have e: "expo x = bitlen ?n - 1" using assms by (simp add: expo_def)
  have "(2::rat) ^ nat (bitlen ?n - 1) = of_int (2 ^ nat (bitlen ?n - 1))" by simp
  also have "\<dots> \<le> of_int ?n" using b(1) by (simp only: of_int_le_iff)
  also have "\<dots> \<le> x" by simp
  finally have lo: "(2::rat) ^ nat (bitlen ?n - 1) \<le> x" .
  have "?n + 1 \<le> 2 ^ nat (bitlen ?n)" using b(2) by simp
  then have "(of_int (?n + 1) :: rat) \<le> of_int (2 ^ nat (bitlen ?n))" by (simp only: of_int_le_iff)
  moreover have "x < of_int (?n + 1)" by linarith
  ultimately have hi: "x < (2::rat) ^ nat (bitlen ?n)" by simp
  show ?thesis using lo hi bl by (simp add: e power_int_def)
qed

lemma expo_lt1:
  assumes "0 < x" "x < 1"
  shows "2 powi (expo x) \<le> x \<and> x < 2 powi (expo x + 1)"
proof -
  let ?y = "1 / x"
  let ?m = "\<lceil>?y\<rceil> - 1"
  let ?k = "bitlen ?m"
  have y1: "1 < ?y" using assms by simp
  have m: "0 < ?m" using y1 by linarith
  have b: "2 ^ nat (?k - 1) \<le> ?m" "?m < 2 ^ nat ?k"
    using bitlen_bounds [OF m] by auto
  have k1: "1 \<le> ?k" using m bitlen_eq_zero_iff [of ?m] bitlen_nonneg [of ?m] by linarith
  have e: "expo x = - ?k" using assms by (simp add: expo_def)
  have "of_int ?m < ?y" by linarith
  moreover have "(of_int (2 ^ nat (?k - 1)) :: rat) \<le> of_int ?m" using b(1) by (simp only: of_int_le_iff)
  ultimately have lo: "(2::rat) ^ nat (?k - 1) < ?y" by simp
  have "\<lceil>?y\<rceil> \<le> 2 ^ nat ?k" using b(2) by simp
  then have "(of_int \<lceil>?y\<rceil> :: rat) \<le> of_int (2 ^ nat ?k)" by (simp only: of_int_le_iff)
  moreover have "?y \<le> of_int \<lceil>?y\<rceil>" by (rule le_of_int_ceiling)
  ultimately have "?y \<le> of_int (2 ^ nat ?k)" by (rule order_trans [rotated])
  then have hi: "?y \<le> (2::rat) ^ nat ?k" by simp
  have p: "(0::rat) < 2 ^ nat ?k" "(0::rat) < 2 ^ nat (?k - 1)" by simp_all
  from hi have A: "1 / 2 ^ nat ?k \<le> x" using assms p
    by (simp add: field_simps)
  from lo have B: "x < 1 / 2 ^ nat (?k - 1)" using assms p
    by (simp add: field_simps)
  have C: "2 powi (- ?k) = 1 / (2::rat) ^ nat ?k" using k1 by (simp add: power_int_def field_simps)
  have D: "2 powi (- ?k + 1) = 1 / (2::rat) ^ nat (?k - 1)"
  proof (cases "?k = 1")
    case True then show ?thesis by simp
  next
    case False
    with k1 have "- ?k + 1 < 0" by simp
    moreover have "nat (- (- ?k + 1)) = nat (?k - 1)" by simp
    ultimately show ?thesis by (simp add: power_int_def field_simps)
  qed
  show ?thesis using A B C D e by simp
qed

lemma expo_bounds: "0 < x \<Longrightarrow> 2 powi (expo x) \<le> x \<and> x < 2 powi (expo x + 1)"
  using expo_ge1 [of x] expo_lt1 [of x] by (cases "1 \<le> x") auto


lemma ulp_pos: "0 < ulp x"
  by (simp add: ulp_def)

lemma ulp_scale: "ulp x * 2 ^ 52 = 2 powi (expo x)"
proof -
  have "expo x = (expo x - 52) + 52" by simp
  then have "2 powi (expo x) = (2::rat) powi ((expo x - 52) + 52)" by (rule arg_cong)
  also have "\<dots> = 2 powi (expo x - 52) * 2 powi 52"
    by (rule power_int_add) simp
  finally show ?thesis by (simp add: ulp_def)
qed

lemma ulp_scale': "ulp x * 2 ^ 53 = 2 powi (expo x + 1)"
proof -
  have "expo x + 1 = (expo x - 52) + 53" by simp
  then have "2 powi (expo x + 1) = (2::rat) powi ((expo x - 52) + 53)" by (rule arg_cong)
  also have "\<dots> = 2 powi (expo x - 52) * 2 powi 53"
    by (rule power_int_add) simp
  finally show ?thesis by (simp add: ulp_def)
qed

lemma scaled_bounds:
  assumes "0 < x"
  shows "2 ^ 52 \<le> x / ulp x" "x / ulp x < 2 ^ 53"
proof -
  have b: "2 powi (expo x) \<le> x" "x < 2 powi (expo x + 1)"
    using expo_bounds [OF assms] by auto
  from b(1) have "ulp x * 2 ^ 52 \<le> x" by (simp only: ulp_scale)
  then show "2 ^ 52 \<le> x / ulp x"
    using ulp_pos [of x] by (simp add: pos_le_divide_eq mult.commute)
  from b(2) have "x < ulp x * 2 ^ 53" by (simp only: ulp_scale')
  then show "x / ulp x < 2 ^ 53"
    using ulp_pos [of x] by (simp add: pos_divide_less_eq mult.commute)
qed

lemma rne_scaled_bounds:
  assumes "0 < x"
  shows "2 ^ 52 \<le> rne (x / ulp x)" "rne (x / ulp x) \<le> 2 ^ 53"
proof -
  have "rne (of_int (2 ^ 52)) \<le> rne (x / ulp x)"
    using scaled_bounds(1) [OF assms] by (intro rne_mono) simp
  then show "2 ^ 52 \<le> rne (x / ulp x)" by (simp only: rne_of_int)
  have "rne (x / ulp x) \<le> rne (of_int (2 ^ 53))"
    using scaled_bounds(2) [OF assms] by (intro rne_mono) simp
  then show "rne (x / ulp x) \<le> 2 ^ 53" by (simp only: rne_of_int)
qed

lemma fl_pos_bounds:
  assumes "0 < x"
  shows "2 powi (expo x) \<le> fl x" "fl x \<le> 2 powi (expo x + 1)"
proof -
  have f: "fl x = of_int (rne (x / ulp x)) * ulp x" using assms by (simp add: fl_def)
  have "(of_int (2 ^ 52) :: rat) \<le> of_int (rne (x / ulp x))"
    using rne_scaled_bounds(1) [OF assms] by (simp only: of_int_le_iff)
  then have "2 ^ 52 * ulp x \<le> of_int (rne (x / ulp x)) * ulp x"
    using ulp_pos [of x] by (simp add: mult_le_cancel_right)
  then show "2 powi (expo x) \<le> fl x"
    using ulp_scale [of x] by (simp add: f mult.commute)
  have "(of_int (rne (x / ulp x)) :: rat) \<le> of_int (2 ^ 53)"
    using rne_scaled_bounds(2) [OF assms] by (simp only: of_int_le_iff)
  then have "of_int (rne (x / ulp x)) * ulp x \<le> 2 ^ 53 * ulp x"
    using ulp_pos [of x] by (simp add: mult_le_cancel_right)
  then show "fl x \<le> 2 powi (expo x + 1)"
    using ulp_scale' [of x] by (simp add: f mult.commute)
qed

lemma fl_pos: "0 < x \<Longrightarrow> 0 < fl x"
proof -
  assume x: "0 < x"
  have "(0::rat) < 2 powi (expo x)" by simp
  with fl_pos_bounds(1) [OF x] show ?thesis by linarith
qed

lemma fl_zero: "fl 0 = 0"
  by (simp add: fl_def)

lemma fl_minus: "fl (- x) = - fl x"
  by (simp add: fl_def)

lemma fl_neg: "x < 0 \<Longrightarrow> fl x < 0"
  using fl_pos [of "- x"] by (simp add: fl_minus)

lemma fl_le_zero_iff: "fl x \<le> 0 \<longleftrightarrow> x \<le> 0"
  using fl_pos [of x] fl_neg [of x] fl_zero by (cases "x = 0"; cases "0 < x") force+

lemma fl_nonneg: "0 \<le> x \<Longrightarrow> 0 \<le> fl x"
  using fl_pos [of x] fl_zero by (cases "x = 0") force+

lemma expo_mono:
  assumes "0 < x" "x \<le> y"
  shows "expo x \<le> expo y"
proof (rule ccontr)
  assume "\<not> expo x \<le> expo y"
  then have "expo y + 1 \<le> expo x" by simp
  then have "(2::rat) powi (expo y + 1) \<le> 2 powi (expo x)"
    by (intro power_int_increasing) simp_all
  moreover have "2 powi (expo x) \<le> x" using expo_bounds [OF assms(1)] by simp
  moreover have "y < 2 powi (expo y + 1)" using expo_bounds [of y] assms by simp
  ultimately show False using assms(2) by linarith
qed

lemma fl_mono_pos:
  assumes "0 < x" "x \<le> y"
  shows "fl x \<le> fl y"
proof (cases "expo x = expo y")
  case True
  then have u: "ulp x = ulp y" by (simp add: ulp_def)
  have y: "0 < y" using assms by simp
  have "x / ulp y \<le> y / ulp y" using assms(2) ulp_pos [of y] by (simp add: divide_le_cancel)
  then have "rne (x / ulp y) \<le> rne (y / ulp y)" by (rule rne_mono)
  then have "(of_int (rne (x / ulp y)) :: rat) \<le> of_int (rne (y / ulp y))" by (simp only: of_int_le_iff)
  then have "of_int (rne (x / ulp y)) * ulp y \<le> of_int (rne (y / ulp y)) * ulp y"
    using ulp_pos [of y] by (simp add: mult_le_cancel_right)
  then show ?thesis using assms(1) y by (simp add: fl_def u)
next
  case False
  have y: "0 < y" using assms by simp
  from False expo_mono [OF assms] have "expo x + 1 \<le> expo y" by simp
  then have "(2::rat) powi (expo x + 1) \<le> 2 powi (expo y)"
    by (intro power_int_increasing) simp_all
  with fl_pos_bounds(2) [OF assms(1)] fl_pos_bounds(1) [OF y] show ?thesis by linarith
qed

lemma fl_mono: "x \<le> y \<Longrightarrow> fl x \<le> fl y"
proof -
  assume xy: "x \<le> y"
  consider "0 < x" | "x \<le> 0" "0 \<le> y" | "y < 0" using xy by linarith
  then show ?thesis
  proof cases
    case 1
    then show ?thesis using xy by (rule fl_mono_pos)
  next
    case 2
    then have "fl x \<le> 0" "0 \<le> fl y" by (simp_all add: fl_le_zero_iff fl_nonneg)
    then show ?thesis by linarith
  next
    case 3
    then have "0 < - y" "- y \<le> - x" using xy by simp_all
    then have "fl (- y) \<le> fl (- x)" by (rule fl_mono_pos)
    then show ?thesis by (simp add: fl_minus)
  qed
qed

lemma fl_of_int_pos:
  assumes "0 < n" "n < 2 ^ 53"
  shows "fl (of_int n) = of_int n"
proof -
  let ?x = "of_int n :: rat"
  have x: "0 < ?x" using assms by simp
  have "2 powi (expo ?x) \<le> ?x" using expo_bounds [OF x] by simp
  also have "?x < of_int (2 ^ 53)" using assms(2) by (simp only: of_int_less_iff)
  finally have "(2::rat) powi (expo ?x) < 2 powi 53" by simp
  then have "expo ?x < 53" by (rule power_int_le_imp_less_exp [rotated]) simp_all
  then have e: "0 \<le> 52 - expo ?x" by simp
  have "ulp ?x * 2 powi (52 - expo ?x) = (2::rat) powi ((expo ?x - 52) + (52 - expo ?x))"
    unfolding ulp_def by (rule power_int_add [symmetric]) simp
  then have "ulp ?x * 2 ^ nat (52 - expo ?x) = 1" using e by (simp add: power_int_def)
  then have inv: "1 / ulp ?x = 2 ^ nat (52 - expo ?x)"
    using ulp_pos [of ?x] by (simp add: field_simps)
  have "?x / ulp ?x = ?x * (1 / ulp ?x)" by simp
  also have "\<dots> = of_int (n * 2 ^ nat (52 - expo ?x))" by (simp add: inv)
  finally have "rne (?x / ulp ?x) = n * 2 ^ nat (52 - expo ?x)" by (simp only: rne_of_int)
  then have "fl ?x = of_int n * (2 ^ nat (52 - expo ?x) * ulp ?x)"
    using x by (simp add: fl_def)
  also have "2 ^ nat (52 - expo ?x) * ulp ?x = 1"
    using inv ulp_pos [of ?x] by (simp add: field_simps)
  finally show ?thesis by simp
qed

lemma fl_of_int: "\<bar>n\<bar> < 2 ^ 53 \<Longrightarrow> fl (of_int n) = of_int n"
proof -
  assume a: "\<bar>n\<bar> < 2 ^ 53"
  consider "n = 0" | "0 < n" | "n < 0" by linarith
  then show ?thesis
  proof cases
    case 1 then show ?thesis by (simp add: fl_zero)
  next
    case 2 with a show ?thesis by (intro fl_of_int_pos) simp_all
  next
    case 3
    with a have "fl (of_int (- n)) = of_int (- n)" by (intro fl_of_int_pos) simp_all
    then show ?thesis by (simp add: fl_minus)
  qed
qed
section \<open>Properties of the doubles\<close>

lemma expo_two_powi: "expo (2 powi k) = k"
proof -
  let ?x = "2 powi k :: rat"
  have x: "0 < ?x" by simp
  from expo_bounds [OF x]
  have lo: "2 powi (expo ?x) \<le> ?x" and hi: "?x < 2 powi (expo ?x + 1)" by simp_all
  have "\<not> k < expo ?x"
  proof
    assume "k < expo ?x"
    then have "?x < 2 powi (expo ?x)" by (rule power_int_strict_increasing) simp
    with lo show False by simp
  qed
  moreover have "\<not> expo ?x + 1 \<le> k"
  proof
    assume "expo ?x + 1 \<le> k"
    then have "(2::rat) powi (expo ?x + 1) \<le> ?x" by (rule power_int_increasing) simp
    with hi show False by simp
  qed
  ultimately show ?thesis by simp
qed

lemma fl_two_powi: "fl (2 powi k) = 2 powi k"
proof -
  let ?x = "2 powi k :: rat"
  let ?u = "2 powi (k - 52) :: rat"
  have u: "ulp ?x = ?u" by (simp add: ulp_def expo_two_powi)
  have "k = (k - 52) + 52" by simp
  then have "?x = 2 powi ((k - 52) + 52)" by (rule arg_cong)
  also have "\<dots> = ?u * 2 powi 52" by (rule power_int_add) simp
  finally have sp: "?x = ?u * of_int (2 ^ 52)" by simp
  have u0: "?u \<noteq> 0" by simp
  have "?x / ?u = (?u * of_int (2 ^ 52)) / ?u" by (simp only: sp [symmetric])
  also have "\<dots> = of_int (2 ^ 52)" using u0 by (rule nonzero_mult_div_cancel_left)
  finally have "rne (?x / ulp ?x) = 2 ^ 52" by (simp only: u rne_of_int)
  then have "fl ?x = of_int (2 ^ 52) * ?u" by (simp add: fl_def u)
  with sp show ?thesis by (simp only: mult.commute)
qed

lemma fl_pow: "fl (2 ^ n) = 2 ^ n"
  using fl_two_powi [of "int n"] by simp

lemma fl_inverse_pow: "fl (1 / 2 ^ n) = 1 / 2 ^ n"
  using fl_two_powi [of "- int n"] by (simp add: power_int_minus_divide)

lemma minNormal_pos: "0 < minNormal"
  by (simp add: minNormal_def)

lemma minNormal_le_one: "minNormal \<le> 1"
  by (simp add: minNormal_def)

lemma fl_minNormal: "fl minNormal = minNormal"
  unfolding minNormal_def by (rule fl_inverse_pow)

lemma rd_zero: "rd 0 = 0"
  by (simp add: rd_def minNormal_def rne_def)

lemma rd_normal: "minNormal \<le> \<bar>x\<bar> \<Longrightarrow> rd x = fl x"
  by (simp add: rd_def)

lemma minNormal_scaled: "minNormal * 2 ^ 1074 = 2 ^ 52"
  by (simp add: minNormal_def)

lemma rd_subnormal_bounds:
  assumes "\<bar>x\<bar> < minNormal"
  shows "- minNormal \<le> rd x" "rd x \<le> minNormal"
proof -
  let ?s = "2 ^ 1074 :: rat"
  have s: "0 < ?s" by simp
  have r: "rd x = of_int (rne (x * ?s)) / ?s" using assms by (simp add: rd_def)
  have "x \<le> minNormal" using assms by simp
  then have "x * ?s \<le> minNormal * ?s" using s by (simp only: mult_le_cancel_right_pos)
  then have "x * ?s \<le> of_int (2 ^ 52)" by (simp only: minNormal_scaled) simp
  then have "rne (x * ?s) \<le> 2 ^ 52" using rne_mono rne_of_int by metis
  then have "(of_int (rne (x * ?s)) :: rat) \<le> of_int (2 ^ 52)" by (simp only: of_int_le_iff)
  then have "of_int (rne (x * ?s)) / ?s \<le> of_int (2 ^ 52) / ?s"
    using s by (simp only: divide_le_cancel) simp
  also have "of_int (2 ^ 52) / ?s = minNormal" by (simp add: minNormal_def)
  finally show "rd x \<le> minNormal" by (simp only: r)
  have "- minNormal \<le> x" using assms by simp
  then have "- minNormal * ?s \<le> x * ?s" using s by (simp only: mult_le_cancel_right_pos)
  then have "of_int (- (2 ^ 52)) \<le> x * ?s" using minNormal_scaled by simp
  then have "- (2 ^ 52) \<le> rne (x * ?s)" using rne_mono rne_of_int by metis
  then have "(of_int (- (2 ^ 52)) :: rat) \<le> of_int (rne (x * ?s))" by (simp only: of_int_le_iff)
  then have "of_int (- (2 ^ 52)) / ?s \<le> of_int (rne (x * ?s)) / ?s"
    using s by (simp only: divide_le_cancel) simp
  moreover have "of_int (- (2 ^ 52)) / ?s = - minNormal" by (simp add: minNormal_def)
  ultimately show "- minNormal \<le> rd x" by (simp only: r)
qed

lemma rd_mono:
  assumes "x \<le> y"
  shows "rd x \<le> rd y"
proof (cases "\<bar>x\<bar> < minNormal")
  case sx: True
  show ?thesis
  proof (cases "\<bar>y\<bar> < minNormal")
    case True
    have "x * 2 ^ 1074 \<le> y * 2 ^ 1074" using assms by simp
    then have "rne (x * 2 ^ 1074) \<le> rne (y * 2 ^ 1074)" by (rule rne_mono)
    then have "(of_int (rne (x * 2 ^ 1074)) :: rat) \<le> of_int (rne (y * 2 ^ 1074))"
      by (simp only: of_int_le_iff)
    then have "(of_int (rne (x * 2 ^ 1074)) :: rat) / 2 ^ 1074
               \<le> of_int (rne (y * 2 ^ 1074)) / 2 ^ 1074"
      by (simp only: divide_le_cancel) simp
    with sx True show ?thesis by (simp add: rd_def)
  next
    case False
    with sx assms have y: "minNormal \<le> y" by simp
    have "rd x \<le> minNormal" using sx by (rule rd_subnormal_bounds)
    also have "minNormal = fl minNormal" by (simp only: fl_minNormal)
    also have "\<dots> \<le> fl y" using y by (rule fl_mono)
    finally show ?thesis using False by (simp add: rd_def)
  qed
next
  case nx: False
  show ?thesis
  proof (cases "\<bar>y\<bar> < minNormal")
    case True
    with nx assms have x: "x \<le> - minNormal" by simp
    then have "fl x \<le> fl (- minNormal)" by (rule fl_mono)
    also have "\<dots> = - minNormal" by (simp only: fl_minus fl_minNormal)
    also have "\<dots> \<le> rd y" using True by (rule rd_subnormal_bounds)
    finally show ?thesis using nx by (simp add: rd_def)
  next
    case False
    with nx fl_mono [OF assms] show ?thesis by (simp add: rd_def)
  qed
qed

lemma rd_nonneg: "0 \<le> x \<Longrightarrow> 0 \<le> rd x"
  using rd_mono [of 0 x] by (simp add: rd_zero)

lemma rd_nonpos: "x \<le> 0 \<Longrightarrow> rd x \<le> 0"
  using rd_mono [of x 0] by (simp add: rd_zero)

lemma rd_pow: "rd (2 ^ n) = 2 ^ n"
proof -
  have "minNormal \<le> \<bar>2 ^ n :: rat\<bar>" using minNormal_le_one by (simp add: order_trans [OF _ one_le_power])
  then show ?thesis by (simp only: rd_normal fl_pow)
qed

lemma rd_minus_pow: "rd (- (2 ^ n)) = - (2 ^ n)"
proof -
  have "minNormal \<le> \<bar>- (2 ^ n) :: rat\<bar>"
    using minNormal_le_one by (simp add: order_trans [OF _ one_le_power])
  then show ?thesis by (simp only: rd_normal fl_minus fl_pow)
qed

lemma rd_of_int:
  assumes "\<bar>n\<bar> \<le> 2 ^ 53"
  shows "rd (of_int n) = of_int n"
proof -
  consider "n = 0" | "n = 2 ^ 53" | "n = - (2 ^ 53)" | "n \<noteq> 0" "\<bar>n\<bar> < 2 ^ 53"
    using assms by (cases "n = 0"; cases "n = 2 ^ 53"; cases "n = - (2 ^ 53)") auto
  then show ?thesis
  proof cases
    case 1
    then show ?thesis by (simp add: rd_zero)
  next
    case 2
    then show ?thesis using rd_pow [of 53] by simp
  next
    case 3
    then show ?thesis using rd_minus_pow [of 53] by simp
  next
    case 4
    from 4(1) have "1 \<le> \<bar>n\<bar>" by simp
    then have "(1::rat) \<le> \<bar>of_int n\<bar>" by (simp only: of_int_abs [symmetric] of_int_1_le_iff)
    with minNormal_le_one have "minNormal \<le> \<bar>of_int n :: rat\<bar>" by (rule order_trans)
    then show ?thesis using fl_of_int [OF 4(2)] by (simp only: rd_normal)
  qed
qed

lemma rnd_Finite:
  assumes "\<bar>x\<bar> \<le> 2 ^ 1023"
  shows "rnd x = Finite (rd x)"
proof -
  from assms have "x \<le> 2 ^ 1023" "- (2 ^ 1023) \<le> x" by simp_all
  then have "rd x \<le> rd (2 ^ 1023)" "rd (- (2 ^ 1023)) \<le> rd x" by (simp_all only: rd_mono)
  then have "rd x \<le> 2 ^ 1023" "- (2 ^ 1023) \<le> rd x" by (simp_all only: rd_pow rd_minus_pow)
  moreover have "(2::rat) ^ 1023 < 2 ^ 1024" by simp
  ultimately show ?thesis by (simp add: rnd_def overflowAt_def)
qed

lemma small_bound: "\<bar>x\<bar> \<le> 2 ^ 54 \<Longrightarrow> \<bar>x :: rat\<bar> \<le> 2 ^ 1023"
proof -
  have "(2::rat) ^ 54 \<le> 2 ^ 1023" by simp
  then show "\<bar>x\<bar> \<le> 2 ^ 54 \<Longrightarrow> \<bar>x\<bar> \<le> 2 ^ 1023" by (rule order_trans [rotated])
qed

lemma rnd_of_int: "\<bar>n\<bar> \<le> 2 ^ 53 \<Longrightarrow> rnd (of_int n) = Finite (of_int n)"
proof -
  assume a: "\<bar>n\<bar> \<le> 2 ^ 53"
  then have "\<bar>of_int n :: rat\<bar> \<le> of_int (2 ^ 53)" by (simp only: of_int_abs [symmetric] of_int_le_iff)
  then have "\<bar>of_int n :: rat\<bar> \<le> 2 ^ 54" by simp
  then have "rnd (of_int n) = Finite (rd (of_int n))" by (intro rnd_Finite small_bound)
  with rd_of_int [OF a] show ?thesis by simp
qed

lemma rnd_whole: "x \<in> \<int> \<Longrightarrow> \<bar>x\<bar> \<le> 2 ^ 53 \<Longrightarrow> rnd x = Finite x"
proof -
  assume "x \<in> \<int>" and b: "\<bar>x\<bar> \<le> 2 ^ 53"
  then obtain n where n: "x = of_int n" by (auto elim: Ints_cases)
  with b have "\<bar>of_int n :: rat\<bar> \<le> of_int (2 ^ 53)" by simp
  then have "\<bar>n\<bar> \<le> 2 ^ 53" by (simp only: of_int_abs [symmetric] of_int_le_iff)
  from rnd_of_int [OF this] n show ?thesis by simp
qed



lemma num_eq_iff: "num a = num b \<longleftrightarrow> a = b"
  by (simp add: num_def)

lemma dadd_num:
  "\<bar>a + b\<bar> \<le> 2 ^ 53 \<Longrightarrow> dadd (num a) (num b) = num (a + b)"
  using rnd_of_int [of "a + b"] by (simp add: num_def)

lemma dsub_num:
  "\<bar>a - b\<bar> \<le> 2 ^ 53 \<Longrightarrow> dsub (num a) (num b) = num (a - b)"
  using rnd_of_int [of "a - b"] by (simp add: num_def dsub_def)

lemma decrement_small: "\<bar>q - 1\<bar> \<le> 2 ^ 53 \<Longrightarrow> decrement q = q - 1"
  using rd_of_int [of "q - 1"] by (simp add: decrement_def)

lemma decrement_nonneg: "0 < q \<Longrightarrow> 0 \<le> decrement q"
proof -
  assume "0 < q"
  then have "(0::rat) \<le> of_int q - 1" by simp
  then have "0 \<le> rd (of_int q - 1)" by (rule rd_nonneg)
  then show ?thesis by (simp add: decrement_def)
qed





section \<open>The generator\<close>

text \<open>A draw is a finite double between 0 and 1, the rounded quotient of the new seed.\<close>

lemma seed_quotient_normal:
  "of_nat (nextSeed s) / 233280 = (0::rat) \<or> minNormal \<le> \<bar>of_nat (nextSeed s) / 233280 :: rat\<bar>"
proof (cases "nextSeed s = 0")
  case True
  then show ?thesis by simp
next
  case False
  then have "(1::rat) \<le> of_nat (nextSeed s)" by simp
  then have "(1::rat) / 233280 \<le> of_nat (nextSeed s) / 233280" by (intro divide_right_mono) simp_all
  moreover have "minNormal \<le> 1 / 233280" by (simp add: minNormal_def)
  ultimately show ?thesis by simp
qed

lemma seededRandom_eq:
  "seededRandom e = (Finite (fl (of_nat (nextSeed (rngSeed e)) / 233280)),
                     e\<lparr>rngSeed := nextSeed (rngSeed e)\<rparr>)"
proof -
  let ?q = "of_nat (nextSeed (rngSeed e)) / 233280 :: rat"
  have "nextSeed (rngSeed e) < 233280" by (simp add: nextSeed_def)
  then have "(of_nat (nextSeed (rngSeed e)) :: rat) \<le> 233280" by simp
  then have "\<bar>?q\<bar> \<le> 1" by simp
  then have "\<bar>?q\<bar> \<le> 2 ^ 1023" by (rule order_trans) simp
  then have "rnd ?q = Finite (rd ?q)" by (rule rnd_Finite)
  moreover have "rd ?q = fl ?q"
    using seed_quotient_normal [of "rngSeed e"] by (auto simp: rd_normal rd_zero fl_zero)
  ultimately show ?thesis by (simp add: seededRandom_def nextSeed_def Let_def)
qed











section \<open>Sums of whole weights\<close>




section \<open>The subtraction loops\<close>

lemma variantLoop_mem: "variantLoop x vs = Some v \<Longrightarrow> v \<in> set vs"
  by (induction vs arbitrary: x) (auto simp: Let_def split: if_splits)

lemma tierLoop_mem: "tierLoop x ws = Some i \<Longrightarrow> i \<in> tier_id ` fst ` set ws"
  by (induction x ws rule: tierLoop.induct) (auto simp: Let_def split: if_splits)

lemma sum_list_nonneg_int: "(\<And>x. x \<in> set xs \<Longrightarrow> (0::int) \<le> x) \<Longrightarrow> 0 \<le> sum_list xs"
  by (induction xs) auto






section \<open>Loading a configuration\<close>

lemma validateTiers_typed:
  "list_all (\<lambda>t. tier_id t \<noteq> []) ts \<Longrightarrow> \<exists>q. validateTiers (map tierJson ts) i acc = Inr q"
  by (induction ts arbitrary: i acc) (simp_all add: tierJson_def)

lemma validateVariants_typed:
  "list_all variantOk vs \<Longrightarrow> \<exists>q. validateVariants (map variantJson vs) ti i acc = Inr q"
  by (induction vs arbitrary: i acc) (simp_all add: variantJson_def variantOk_def)

lemma traitJson_props:
  "traitJson tc \<noteq> JNull"
  "getProp (traitJson tc) ''trait'' = Some (JStr (trait tc))"
  "getProp (traitJson tc) ''variants'' = Some (JArr (map variantJson (variants tc)))"
  by (simp_all add: traitJson_def)

lemma validateTraits_typed:
  "list_all traitOk tcs \<Longrightarrow> fst (validateTraits (map traitJson tcs) i sz) = None"
proof (induction tcs arbitrary: i)
  case Nil
  then show ?case by simp
next
  case (Cons tc rest)
  from Cons.prems have ok: "traitOk tc" and rest: "list_all traitOk rest" by simp_all
  from ok obtain q where q: "validateVariants (map variantJson (variants tc)) i 0 (Finite 0) = Inr q"
    using validateVariants_typed [of "variants tc" i 0 "Finite 0"] by (auto simp: traitOk_def)
  have ih: "fst (validateTraits (map traitJson rest) (Suc i) sz) = None"
    using rest by (rule Cons.IH)
  obtain ws where "validateTraits (map traitJson rest) (Suc i) sz = (None, ws)"
    using ih by (cases "validateTraits (map traitJson rest) (Suc i) sz") simp
  then show ?case using ok q
    by (simp add: traitJson_props traitOk_def Let_def)
qed

lemma validateConfig_typed: "wellTyped c \<Longrightarrow> fst (validateConfig (configJson c)) = None"
proof -
  assume wt: "wellTyped c"
  from wt obtain q where q: "validateTiers (map tierJson (tiers c)) 0 (Finite 0) = Inr q"
    using validateTiers_typed [of "tiers c" 0 "Finite 0"] by (auto simp: wellTyped_def)
  let ?sz = "Some (JNum (of_int (collectionSize c)))"
  have "fst (validateTraits (map traitJson (traits c)) 0 ?sz) = None"
    using wt by (intro validateTraits_typed) (simp add: wellTyped_def)
  then obtain ws where tr: "validateTraits (map traitJson (traits c)) 0 ?sz = (None, ws)"
    by (cases "validateTraits (map traitJson (traits c)) 0 ?sz") simp
  have len: "length (traits c) = 6" using wt by (simp add: wellTyped_def)
  show ?thesis using q tr len
    by (simp add: validateConfig_def configJson_def expectedTraitNames_def Let_def)
qed

lemma validateConfig_typed_eq:
  "wellTyped c \<Longrightarrow>
   validateConfig (configJson c) = (None, snd (validateConfig (configJson c)))"
  using validateConfig_typed [of c] by (cases "validateConfig (configJson c)") simp

lemma loaded_eq:
  assumes "wellTyped c"
  shows "loaded c = \<lparr>config = Some c, remainingTierQuotas = Some (tiers c),
                      remainingVariantQuotas = Some (traits c), rngSeed = 42,
                      tierIdToIndex = setTierIndices (tiers c) 0 Map.empty,
                      variantNameToTraitIndex = setTraitIndices (traits c) 0 Map.empty,
                      console = snd (validateConfig (configJson c))\<rparr>"
proof -
  obtain ws where ws: "validateConfig (configJson c) = (None, ws)"
    using validateConfig_typed_eq [OF assms] by blast
  show ?thesis
    by (simp add: loaded_def loadConfig_def RarityEngine_def initializeQuotas_def
             buildLookupMaps_def Let_def ws)
qed

lemma loadConfig_typed:
  assumes "wellTyped c"
  shows "loadConfig c RarityEngine = (Inr (), loaded c)"
proof -
  obtain ws where ws: "validateConfig (configJson c) = (None, ws)"
    using validateConfig_typed_eq [OF assms] by blast
  show ?thesis
    by (simp add: loaded_def loadConfig_def RarityEngine_def initializeQuotas_def
             buildLookupMaps_def Let_def ws)
qed

lemma list_all_letters:
  "list_all P (map f letters) \<longleftrightarrow> list_all (\<lambda>n. P (f n)) letters"
  by (simp add: list_all_iff)

lemma wellTyped_ownNames: "wellTyped ownNames"
  by (simp add: wellTyped_def ownNames_def traitsOf_def traitOk_def variantOk_def
           expectedTraitNames_def letters_def)

lemma wellTyped_sharedNames: "wellTyped sharedNames"
  by (simp add: wellTyped_def sharedNames_def traitsOf_def traitOk_def variantOk_def
           expectedTraitNames_def letters_def)


lemma wellTyped_noTiers: "wellTyped noTiers"
  using wellTyped_ownNames by (simp add: wellTyped_def noTiers_def)

section \<open>Documents that validation rejects\<close>

lemma validateTiers_bad:
  "list_ex badTier ts \<Longrightarrow> \<exists>x. validateTiers ts i acc = Inl x"
  by (induction ts arbitrary: i acc) (auto simp: badTier_def)

lemma validateVariants_bad:
  "list_ex badVariant vs \<Longrightarrow> \<exists>x. validateVariants vs ti i acc = Inl x"
  by (induction vs arbitrary: i acc) (auto simp: badVariant_def)

lemma validateTraits_head_bad:
  assumes "badTrait tr"
  shows "fst (validateTraits (tr # rest) i sz) \<noteq> None"
proof (cases "tr = JNull")
  case True
  then show ?thesis by simp
next
  case notnull: False
  show ?thesis
  proof (cases "case getProp tr ''trait'' of Some (JStr s) \<Rightarrow> s \<notin> set expectedTraitNames
                | _ \<Rightarrow> True")
    case True
    with notnull show ?thesis by simp
  next
    case named: False
    with assms notnull
    have v: "case getProp tr ''variants'' of
               Some (JArr vs) \<Rightarrow> length vs \<noteq> 26 \<or> list_ex badVariant vs | _ \<Rightarrow> True"
      by (simp add: badTrait_def)
    show ?thesis
    proof (cases "getProp tr ''variants''")
      case None
      with notnull named show ?thesis by simp
    next
      case (Some vs)
      show ?thesis
      proof (cases vs)
        case (JArr xs)
        with v Some have bad: "length xs \<noteq> 26 \<or> list_ex badVariant xs" by simp
        show ?thesis
        proof (cases "length xs = 26")
          case True
          with bad obtain x where "validateVariants xs i 0 (Finite 0) = Inl x"
            using validateVariants_bad [of xs i 0 "Finite 0"] by auto
          with notnull named Some JArr True show ?thesis by simp
        next
          case False
          with notnull named Some JArr show ?thesis by simp
        qed
      qed (use notnull named Some in \<open>simp_all split: if_splits\<close>)
    qed
  qed
qed

lemma validateTraits_bad:
  "list_ex badTrait trs \<Longrightarrow> fst (validateTraits trs i sz) \<noteq> None"
proof (induction trs arbitrary: i)
  case Nil
  then show ?case by simp
next
  case (Cons tr rest)
  show ?case
  proof (cases "badTrait tr")
    case True
    then show ?thesis by (rule validateTraits_head_bad)
  next
    case False
    with Cons.prems have "list_ex badTrait rest" by simp
    then have ih: "fst (validateTraits rest (Suc i) sz) \<noteq> None" by (rule Cons.IH)
    obtain e ws where r: "validateTraits rest (Suc i) sz = (e, ws)"
      by (cases "validateTraits rest (Suc i) sz")
    with ih have "e \<noteq> None" by simp
    with r show ?thesis
      by (auto simp: Let_def split: option.splits json.splits sum.splits)
  qed
qed

text \<open>
  Loading fails when the tiers or the traits are missing, when the list of traits is empty
  or has not six entries, and when a tier, a trait or a variant is not as required. An
  empty list of tiers is not among these, and a disagreement of quota sums never is: every
  well-typed configuration passes, whatever its sums (\<open>validateConfig_typed\<close>).
\<close>

lemma validateConfig_rejects:
  assumes "\<not> truthy (getProp c ''tiers'') \<or> \<not> truthy (getProp c ''traits'')
           \<or> (\<exists>ts. getProp c ''tiers'' = Some (JArr ts) \<and> list_ex badTier ts)
           \<or> (\<exists>trs. getProp c ''traits'' = Some (JArr trs)
                     \<and> (length trs \<noteq> 6 \<or> list_ex badTrait trs))"
  shows "fst (validateConfig c) \<noteq> None"
proof (cases "\<not> truthy (Some c) \<or> \<not> truthy (getProp c ''tiers'')
              \<or> \<not> truthy (getProp c ''traits'')")
  case True
  then show ?thesis by (simp add: validateConfig_def)
next
  case ok: False
  then obtain tv rv where tv: "getProp c ''tiers'' = Some tv" and rv: "getProp c ''traits'' = Some rv"
    by (cases "getProp c ''tiers''"; cases "getProp c ''traits''") auto
  show ?thesis
  proof (cases tv)
    case (JArr ts)
    show ?thesis
    proof (cases "validateTiers ts 0 (Finite 0)")
      case (Inl x)
      with ok tv rv JArr show ?thesis by (simp add: validateConfig_def)
    next
      case (Inr q)
      with assms ok tv JArr validateTiers_bad [of ts 0 "Finite 0"]
      have tr: "\<exists>trs. getProp c ''traits'' = Some (JArr trs)
                     \<and> (length trs \<noteq> 6 \<or> list_ex badTrait trs)" by auto
      then obtain trs where trs: "rv = JArr trs" "length trs \<noteq> 6 \<or> list_ex badTrait trs"
        using rv by auto
      show ?thesis
      proof (cases "length trs = 6")
        case True
        with trs(2) have "fst (validateTraits trs 0 (getProp c ''collectionSize'')) \<noteq> None"
          by (intro validateTraits_bad) simp
        with ok tv rv JArr Inr trs(1) True show ?thesis
          by (simp add: validateConfig_def expectedTraitNames_def Let_def case_prod_beta)
      next
        case False
        with ok tv rv JArr Inr trs(1) show ?thesis
          by (simp add: validateConfig_def expectedTraitNames_def Let_def)
      qed
    qed
  qed (use ok tv rv in \<open>simp_all add: validateConfig_def\<close>)
qed

lemma validateConfig_rejects_empty_traits:
  "getProp c ''traits'' = Some (JArr []) \<Longrightarrow> fst (validateConfig c) \<noteq> None"
proof (cases "truthy (getProp c ''tiers'')")
  case True
  assume "getProp c ''traits'' = Some (JArr [])"
  then show ?thesis
    using True
    by (cases "getProp c ''tiers''")
       (auto simp: validateConfig_def expectedTraitNames_def Let_def
             split: json.splits sum.splits)
next
  case False
  then show ?thesis by (simp add: validateConfig_def)
qed

section \<open>Variant selection\<close>

text \<open>
  The variant kept for a trait, by the loop or by the fallback after it, is one of the
  available variants.
\<close>

lemma chosen_available:
  assumes "av \<noteq> []"
  shows "(case variantLoop x av of Some v \<Rightarrow> v | None \<Rightarrow> hd av) \<in> set av"
  using assms by (auto split: option.splits dest: variantLoop_mem)

lemma selectLoop_sound:
  "selectLoop tid tcs acc e = (Inr sel, e')
   \<Longrightarrow> \<exists>new. sel = acc @ new \<and> list_all2 (selectedFrom tid) tcs new"
proof (induction tcs arbitrary: acc e)
  case Nil
  then show ?case by simp
next
  case (Cons tc rest)
  let ?av = "filter (\<lambda>v. variant_tier v = tid \<and> 0 < variant_quota v) (variants tc)"
  let ?x = "dmul (fst (seededRandom e))
              (foldl (\<lambda>total v. dadd total (num (variant_quota v))) (Finite 0) ?av)"
  let ?v = "case variantLoop ?x ?av of Some v \<Rightarrow> v | None \<Rightarrow> hd ?av"
  let ?it = "\<lparr>item_trait = trait tc, item_variant = ?v\<rparr>"
  from Cons.prems have ne: "?av \<noteq> []"
    by (auto simp: Let_def split: if_splits)
  with Cons.prems
  have run: "selectLoop tid rest (acc @ [?it]) (snd (seededRandom e)) = (Inr sel, e')"
    by (simp add: Let_def split: prod.splits)
  from Cons.IH [OF run] obtain new
    where new: "sel = (acc @ [?it]) @ new" "list_all2 (selectedFrom tid) rest new" by blast
  have "?v \<in> set ?av" using ne by (rule chosen_available)
  then have "selectedFrom tid tc ?it" by (simp add: selectedFrom_def)
  with new show ?case by (intro exI [of _ "?it # new"]) simp
qed

lemma selectLoop_state: "selectLoop tid tcs acc e = (r, e') \<Longrightarrow> \<exists>s. e' = e\<lparr>rngSeed := s\<rparr>"
proof (induction tcs arbitrary: acc e)
  case Nil
  then have "e' = e\<lparr>rngSeed := rngSeed e\<rparr>" by simp
  then show ?case by blast
next
  case (Cons tc rest)
  let ?av = "filter (\<lambda>v. variant_tier v = tid \<and> 0 < variant_quota v) (variants tc)"
  show ?case
  proof (cases "?av = []")
    case True
    with Cons.prems have "e' = e\<lparr>rngSeed := rngSeed e\<rparr>" by (simp add: Let_def)
    then show ?thesis by blast
  next
    case False
    with Cons.prems obtain a where
      "selectLoop tid rest a (e\<lparr>rngSeed := nextSeed (rngSeed e)\<rparr>) = (r, e')"
      by (simp add: Let_def seededRandom_eq)
    from Cons.IH [OF this] obtain s where "e' = e\<lparr>rngSeed := nextSeed (rngSeed e)\<rparr>\<lparr>rngSeed := s\<rparr>"
      by blast
    then have "e' = e\<lparr>rngSeed := s\<rparr>" by simp
    then show ?thesis by blast
  qed
qed

lemma selectVariantsForTier_state:
  "selectVariantsForTier tid e = (r, e') \<Longrightarrow> \<exists>s. e' = e\<lparr>rngSeed := s\<rparr>"
proof (cases "remainingVariantQuotas e")
  case None
  assume "selectVariantsForTier tid e = (r, e')"
  with None have "e' = e\<lparr>rngSeed := rngSeed e\<rparr>" by (simp add: selectVariantsForTier_def)
  then show ?thesis by blast
next
  case (Some rvq)
  assume "selectVariantsForTier tid e = (r, e')"
  with Some show ?thesis by (simp add: selectVariantsForTier_def selectLoop_state)
qed

lemma selectVariantsForTier_sound:
  assumes "selectVariantsForTier tid e = (Inr sel, e')"
  shows "\<exists>rvq. remainingVariantQuotas e = Some rvq \<and> list_all2 (selectedFrom tid) rvq sel"
proof (cases "remainingVariantQuotas e")
  case None
  with assms show ?thesis by (simp add: selectVariantsForTier_def)
next
  case (Some rvq)
  with assms have "selectLoop tid rvq [] e = (Inr sel, e')"
    by (simp add: selectVariantsForTier_def)
  from selectLoop_sound [OF this] Some show ?thesis by simp
qed


section \<open>Selection with a single candidate\<close>

lemma variantLoop_single: "(case variantLoop x [v] of Some v' \<Rightarrow> v' | None \<Rightarrow> hd [v]) = v"
  by (simp add: Let_def)

lemma selectLoop_single:
  assumes "length (filter (\<lambda>v. variant_tier v = tid \<and> 0 < variant_quota v) (variants tc)) = 1"
  shows "selectLoop tid (tc # rest) acc e =
         selectLoop tid rest
           (acc @ [\<lparr>item_trait = trait tc,
                    item_variant =
                      hd (filter (\<lambda>v. variant_tier v = tid \<and> 0 < variant_quota v)
                            (variants tc))\<rparr>])
           (e\<lparr>rngSeed := nextSeed (rngSeed e)\<rparr>)"
proof -
  let ?av = "filter (\<lambda>v. variant_tier v = tid \<and> 0 < variant_quota v) (variants tc)"
  from assms obtain v where v: "?av = [v]" by (cases ?av) auto
  show ?thesis by (simp add: v Let_def seededRandom_eq)
qed

lemma selectTierWeighted_single:
  assumes "remainingTierQuotas e = Some rtq"
    and "length (filter (\<lambda>t. 0 < tier_quota t) rtq) = 1"
  shows "selectTierWeighted e =
         (Inr (tier_id (hd (filter (\<lambda>t. 0 < tier_quota t) rtq))),
          e\<lparr>rngSeed := nextSeed (rngSeed e)\<rparr>)"
proof -
  from assms(2) obtain t where t: "filter (\<lambda>t. 0 < tier_quota t) rtq = [t]"
    by (cases "filter (\<lambda>t. 0 < tier_quota t) rtq") auto
  show ?thesis by (simp add: selectTierWeighted_def assms(1) t Let_def seededRandom_eq)
qed

section \<open>Tier selection\<close>












section \<open>Weights that overflow\<close>






















lemma rnd_zero: "rnd 0 = Finite 0"
  using rnd_of_int [of 0] by simp









section \<open>Evaluation on the example configurations\<close>

lemma traits_ownNames:
  "traits ownNames =
     traitsOf (\<lambda>t n. \<lparr>variant_name = t @ ''_'' @ n, variant_tier = ''T5'', points = 1,
                        variant_quota = (if n = ''a'' then 1 else 0)\<rparr>)"
  by (simp add: ownNames_def)

lemma tiers_ownNames:
  "tiers ownNames = [\<lparr>tier_id = ''T5'', tier_name = ''Common'', tier_quota = 1,
                      scoreRange = (0, 100)\<rparr>]"
  by (simp add: ownNames_def)



lemma ownNames_select_seed:
  "selectVariantsForTier ''T5'' ((loaded ownNames)\<lparr>rngSeed := s\<rparr>)
   = (Inr ownSelection,
      (loaded ownNames)
        \<lparr>rngSeed := nextSeed (nextSeed (nextSeed (nextSeed (nextSeed (nextSeed s)))))\<rparr>)"
  by (simp add: loaded_eq [OF wellTyped_ownNames] selectVariantsForTier_def traits_ownNames
        traitsOf_def expectedTraitNames_def letters_def selectLoop_single ownSelection_def
      del: selectLoop.simps(2))











section \<open>The weights of the tier selector\<close>










lemma rnd_one: "rnd 1 = Finite 1"
  by (rule rnd_whole) simp_all


section \<open>What one attempt changes\<close>

lemma selectTierWeighted_state:
  "selectTierWeighted e = (r, e') \<Longrightarrow> \<exists>s. e' = e\<lparr>rngSeed := s\<rparr>"
proof -
  assume a: "selectTierWeighted e = (r, e')"
  have "e' = e\<lparr>rngSeed := rngSeed e\<rparr> \<or> e' = e\<lparr>rngSeed := nextSeed (rngSeed e)\<rparr>"
    using a
    by (auto simp: selectTierWeighted_def Let_def seededRandom_eq
             split: option.splits if_splits)
  then show ?thesis by blast
qed

lemma findIndex_Some: "findIndex p xs = Some i \<Longrightarrow> i < length xs \<and> p (xs ! i)"
  by (induction xs arbitrary: i) (auto split: if_splits)

lemma decrementVariants_state:
  "decrementVariants sel e = (r, e') \<Longrightarrow> \<exists>q. e' = e\<lparr>remainingVariantQuotas := q\<rparr>"
proof (induction sel arbitrary: e)
  case Nil
  then have "e' = e\<lparr>remainingVariantQuotas := remainingVariantQuotas e\<rparr>" by simp
  then show ?case by blast
next
  case (Cons it rest)
  have keep: "e = e\<lparr>remainingVariantQuotas := remainingVariantQuotas e\<rparr>" by simp
  from Cons.prems
  have "e' = e \<or> (\<exists>q. decrementVariants rest (e\<lparr>remainingVariantQuotas := q\<rparr>) = (r, e'))"
    by (auto split: option.splits if_splits)
  then show ?case
  proof
    assume "e' = e"
    with keep show ?thesis by metis
  next
    assume "\<exists>q. decrementVariants rest (e\<lparr>remainingVariantQuotas := q\<rparr>) = (r, e')"
    then obtain q where "decrementVariants rest (e\<lparr>remainingVariantQuotas := q\<rparr>) = (r, e')"
      by blast
    from Cons.IH [OF this] obtain q'
      where "e' = e\<lparr>remainingVariantQuotas := q\<rparr>\<lparr>remainingVariantQuotas := q'\<rparr>" by blast
    then have "e' = e\<lparr>remainingVariantQuotas := q'\<rparr>" by simp
    then show ?thesis by blast
  qed
qed

lemma decrementQuotas_state:
  assumes "decrementQuotas tid sel e = (r, e')"
  shows "\<exists>p q. e' = e\<lparr>remainingTierQuotas := p, remainingVariantQuotas := q\<rparr>"
proof -
  have keep: "e = e\<lparr>remainingTierQuotas := remainingTierQuotas e,
                    remainingVariantQuotas := remainingVariantQuotas e\<rparr>" by simp
  from assms
  have "e' = e \<or> (\<exists>p. decrementVariants sel (e\<lparr>remainingTierQuotas := p\<rparr>) = (r, e'))"
    by (auto simp: decrementQuotas_def split: option.splits if_splits)
  then show ?thesis
  proof
    assume "e' = e"
    with keep show ?thesis by metis
  next
    assume "\<exists>p. decrementVariants sel (e\<lparr>remainingTierQuotas := p\<rparr>) = (r, e')"
    then obtain p where "decrementVariants sel (e\<lparr>remainingTierQuotas := p\<rparr>) = (r, e')"
      by blast
    from decrementVariants_state [OF this] obtain q
      where "e' = e\<lparr>remainingTierQuotas := p\<rparr>\<lparr>remainingVariantQuotas := q\<rparr>" by blast
    then have "e' = e\<lparr>remainingTierQuotas := p, remainingVariantQuotas := q\<rparr>" by simp
    then show ?thesis by blast
  qed
qed

lemma getTierById_config: "config e = config e' \<Longrightarrow> getTierById e tid = getTierById e' tid"
  by (simp add: getTierById_def)

lemma isScoreInTierRange_config:
  "config e = config e' \<Longrightarrow> isScoreInTierRange e s tid = isScoreInTierRange e' s tid"
  by (simp add: isScoreInTierRange_def getTierById_config [of e e'])

text \<open>The steps of an attempt that returns a result.\<close>

lemma attempt_success:
  assumes "attempt n e = (Inr (Some r), e')"
  shows "\<exists>tid s sel s' t.
           selectTierWeighted e = (Inr tid, e\<lparr>rngSeed := s\<rparr>)
           \<and> selectVariantsForTier tid (e\<lparr>rngSeed := s\<rparr>) = (Inr sel, e\<lparr>rngSeed := s'\<rparr>)
           \<and> getTierById e tid = Inr t
           \<and> dle (num (fst (scoreRange t))) (calculateScore sel)
           \<and> dle (calculateScore sel) (num (snd (scoreRange t)))
           \<and> decrementQuotas tid sel (e\<lparr>rngSeed := s'\<rparr>) = (Inr (), e')
           \<and> r = Success tid (tier_name t) (calculateScore sel) sel (n + 1)"
proof -
  from assms obtain tid e1 where t1: "selectTierWeighted e = (Inr tid, e1)"
    by (cases "selectTierWeighted e") (auto simp: attempt_def split: sum.splits)
  from selectTierWeighted_state [OF t1] obtain s where e1: "e1 = e\<lparr>rngSeed := s\<rparr>" by blast
  from assms t1 obtain sel e2 where t2: "selectVariantsForTier tid e1 = (Inr sel, e2)"
    by (cases "selectVariantsForTier tid e1") (auto simp: attempt_def split: sum.splits)
  from selectVariantsForTier_state [OF t2] obtain s' where "e2 = e1\<lparr>rngSeed := s'\<rparr>" by blast
  with e1 have e2: "e2 = e\<lparr>rngSeed := s'\<rparr>" by simp
  have c2: "config e2 = config e" by (simp add: e2)
  from assms t1 t2 have t3: "isScoreInTierRange e2 (calculateScore sel) tid = Inr True"
    by (auto simp: attempt_def Let_def split: sum.splits bool.splits)
  then obtain t where t: "getTierById e2 tid = Inr t"
    "dle (num (fst (scoreRange t))) (calculateScore sel)"
    "dle (calculateScore sel) (num (snd (scoreRange t)))"
    by (auto simp: isScoreInTierRange_def split: sum.splits)
  from assms t1 t2 t3 obtain e3 where t4: "decrementQuotas tid sel e2 = (Inr (), e3)"
    by (cases "decrementQuotas tid sel e2") (auto simp: attempt_def Let_def split: sum.splits)
  from decrementQuotas_state [OF t4] have c3: "config e3 = config e2" by auto
  have t5: "getTierById e3 tid = Inr t" using t(1) getTierById_config [OF c3] by simp
  from assms t1 t2 t3 t4 t5
  have res: "r = Success tid (tier_name t) (calculateScore sel) sel (n + 1)" "e' = e3"
    by (auto simp: attempt_def Let_def)
  have "getTierById e tid = Inr t" using t(1) getTierById_config [OF c2] by simp
  with t1 t2 t(2,3) t4 res show ?thesis unfolding e1 e2 by blast
qed

lemma attempt_config: "attempt n e = (r, e') \<Longrightarrow> config e' = config e \<and> console e' = console e"
proof -
  assume a: "attempt n e = (r, e')"
  obtain r1 e1 where t1: "selectTierWeighted e = (r1, e1)" by (cases "selectTierWeighted e")
  from selectTierWeighted_state [OF t1] obtain s where e1: "e1 = e\<lparr>rngSeed := s\<rparr>" by blast
  show ?thesis
  proof (cases r1)
    case (Inl x)
    with a t1 e1 show ?thesis by (auto simp: attempt_def)
  next
    case (Inr tid)
    obtain r2 e2 where t2: "selectVariantsForTier tid e1 = (r2, e2)"
      by (cases "selectVariantsForTier tid e1")
    from selectVariantsForTier_state [OF t2] e1 obtain s' where e2: "e2 = e\<lparr>rngSeed := s'\<rparr>"
      by auto
    show ?thesis
    proof (cases r2)
      case (Inl x)
      with a t1 t2 Inr e2 show ?thesis by (auto simp: attempt_def)
    next
      case sel: (Inr sel)
      obtain r3 e3 where t3: "decrementQuotas tid sel e2 = (r3, e3)"
        by (cases "decrementQuotas tid sel e2")
      from decrementQuotas_state [OF t3] e2 have "config e3 = config e \<and> console e3 = console e"
        by auto
      with a t1 t2 t3 Inr sel e2 show ?thesis
        by (auto simp: attempt_def Let_def split: sum.splits bool.splits)
    qed
  qed
qed

section \<open>The quota store keeps the shape of the configuration\<close>

lemma decrementVariant_shape:
  assumes "list_all2 sameTrait ref rvq" "ti < length rvq" "vi < length (variants (rvq ! ti))"
  shows "list_all2 sameTrait ref (decrementVariant ti vi rvq)"
proof -
  let ?tc = "rvq ! ti"
  let ?v = "variants ?tc ! vi"
  let ?vs = "(variants ?tc)[vi := ?v\<lparr>variant_quota := decrement (variant_quota ?v)\<rparr>]"
  have len: "length ref = length rvq" using assms(1) by (rule list_all2_lengthD)
  have st: "sameTrait (ref ! ti) ?tc" using assms(1,2) by (simp add: list_all2_conv_all_nth)
  then have vs: "list_all2 sameVariant (variants (ref ! ti)) (variants ?tc)"
    by (simp add: sameTrait_def)
  then have "sameVariant (variants (ref ! ti) ! vi) ?v"
    using assms(3) by (simp add: list_all2_conv_all_nth)
  then have "sameVariant (variants (ref ! ti) ! vi) (?v\<lparr>variant_quota := decrement (variant_quota ?v)\<rparr>)"
    by (simp add: sameVariant_def)
  with vs have "list_all2 sameVariant ((variants (ref ! ti))[vi := variants (ref ! ti) ! vi]) ?vs"
    by (rule list_all2_update_cong)
  then have "sameTrait (ref ! ti) (?tc\<lparr>variants := ?vs\<rparr>)" using st by (simp add: sameTrait_def)
  with assms(1) have "list_all2 sameTrait (ref[ti := ref ! ti]) (rvq[ti := ?tc\<lparr>variants := ?vs\<rparr>])"
    by (rule list_all2_update_cong)
  then show ?thesis by (simp add: decrementVariant_def Let_def)
qed

lemma decrementVariants_shape:
  "decrementVariants sel e = (r, e') \<Longrightarrow> mirrorsConfig e \<Longrightarrow> mirrorsConfig e'"
proof (induction sel arbitrary: e)
  case Nil
  then show ?case by simp
next
  case (Cons it rest)
  let ?n = "variant_name (item_variant it)"
  show ?case
  proof (cases "e' = e")
    case True
    with Cons.prems show ?thesis by simp
  next
    case False
    with Cons.prems(1) obtain ti rvq vi where f:
      "remainingVariantQuotas e = Some rvq" "ti < length rvq"
      "findIndex (\<lambda>v. variant_name v = ?n) (variants (rvq ! ti)) = Some vi"
      "decrementVariants rest (e\<lparr>remainingVariantQuotas := Some (decrementVariant ti vi rvq)\<rparr>)
       = (r, e')"
      by (auto split: option.splits if_splits)
    from findIndex_Some [OF f(3)] have vi: "vi < length (variants (rvq ! ti))" by simp
    from Cons.prems(2) f(1) obtain c where c: "config e = Some c" "list_all2 sameTrait (traits c) rvq"
      by (auto simp: mirrorsConfig_def split: option.splits)
    have "list_all2 sameTrait (traits c) (decrementVariant ti vi rvq)"
      using c(2) f(2) vi by (rule decrementVariant_shape)
    then have "mirrorsConfig (e\<lparr>remainingVariantQuotas := Some (decrementVariant ti vi rvq)\<rparr>)"
      using c(1) by (simp add: mirrorsConfig_def)
    with f(4) show ?thesis by (rule Cons.IH)
  qed
qed

lemma decrementQuotas_shape:
  assumes "decrementQuotas tid sel e = (r, e')" "mirrorsConfig e"
  shows "mirrorsConfig e'"
proof (cases "e' = e")
  case True
  with assms show ?thesis by simp
next
  case False
  with assms(1) obtain p where p: "decrementVariants sel (e\<lparr>remainingTierQuotas := p\<rparr>) = (r, e')"
    by (auto simp: decrementQuotas_def split: option.splits if_splits)
  have "mirrorsConfig (e\<lparr>remainingTierQuotas := p\<rparr>)" using assms(2) by (simp add: mirrorsConfig_def)
  with p show ?thesis by (rule decrementVariants_shape)
qed

lemma mirrorsConfig_seed: "mirrorsConfig (e\<lparr>rngSeed := s\<rparr>) = mirrorsConfig e"
  by (simp add: mirrorsConfig_def)

lemma mirrorsConfig_console: "mirrorsConfig (e\<lparr>console := w\<rparr>) = mirrorsConfig e"
  by (simp add: mirrorsConfig_def)

lemma attempt_shape:
  assumes "attempt n e = (r, e')" "mirrorsConfig e"
  shows "mirrorsConfig e'"
proof -
  obtain r1 e1 where t1: "selectTierWeighted e = (r1, e1)" by (cases "selectTierWeighted e")
  from selectTierWeighted_state [OF t1] obtain s where e1: "e1 = e\<lparr>rngSeed := s\<rparr>" by blast
  show ?thesis
  proof (cases r1)
    case (Inl x)
    with assms t1 e1 show ?thesis by (auto simp: attempt_def mirrorsConfig_seed)
  next
    case (Inr tid)
    obtain r2 e2 where t2: "selectVariantsForTier tid e1 = (r2, e2)"
      by (cases "selectVariantsForTier tid e1")
    from selectVariantsForTier_state [OF t2] e1 obtain s' where e2: "e2 = e\<lparr>rngSeed := s'\<rparr>"
      by auto
    have m2: "mirrorsConfig e2" using assms(2) by (simp add: e2 mirrorsConfig_seed)
    show ?thesis
    proof (cases r2)
      case (Inl x)
      with assms(1) t1 t2 Inr m2 show ?thesis by (auto simp: attempt_def)
    next
      case sel: (Inr sel)
      obtain r3 e3 where t3: "decrementQuotas tid sel e2 = (r3, e3)"
        by (cases "decrementQuotas tid sel e2")
      from decrementQuotas_shape [OF t3 m2] have "mirrorsConfig e3" .
      with assms(1) t1 t2 t3 Inr sel m2 show ?thesis
        by (auto simp: attempt_def Let_def split: sum.splits bool.splits)
    qed
  qed
qed

section \<open>The retry loop\<close>

declare generateLoop.simps [simp del]

text \<open>
  The score is the double sum of the points; it is their sum when the magnitudes of the
  points add up to at most \<open>2 ^ 53\<close>, for then no addition rounds.
\<close>

lemma calculateScore_doubleSum:
  "calculateScore sel = doubleSum (map (\<lambda>it. points (item_variant it)) sel)"
proof -
  have "foldl (\<lambda>total it. dadd total (num (points (item_variant it)))) z sel
        = foldl (\<lambda>total n. dadd total (num n)) z (map (\<lambda>it. points (item_variant it)) sel)"
    for z
    by (induction sel arbitrary: z) simp_all
  then show ?thesis by (simp only: calculateScore_def doubleSum_def)
qed

lemma doubleSum_foldl:
  "\<bar>a\<bar> + sum_list (map abs ns) \<le> 2 ^ 53
   \<Longrightarrow> foldl (\<lambda>total n. dadd total (num n)) (num a) ns = num (a + sum_list ns)"
proof (induction ns arbitrary: a)
  case Nil
  then show ?case by simp
next
  case (Cons n rest)
  have s0: "0 \<le> sum_list (map abs rest)" by (intro sum_list_nonneg_int) auto
  have "\<bar>a + n\<bar> \<le> \<bar>a\<bar> + \<bar>n\<bar>" by (rule abs_triangle_ineq)
  with Cons.prems s0 have b: "\<bar>a + n\<bar> \<le> 2 ^ 53"
    and r: "\<bar>a + n\<bar> + sum_list (map abs rest) \<le> 2 ^ 53" by simp_all
  from dadd_num [OF b] Cons.IH [OF r] show ?case by (simp add: add.assoc)
qed

lemma doubleSum_exact:
  "sum_list (map abs ns) \<le> 2 ^ 53 \<Longrightarrow> doubleSum ns = num (sum_list ns)"
  using doubleSum_foldl [of 0 ns] by (simp add: doubleSum_def num_def)

lemma list_all2_member:
  "list_all2 P xs ys \<Longrightarrow> y \<in> set ys \<Longrightarrow> \<exists>x\<in>set xs. P x y"
  by (metis in_set_conv_nth list_all2_conv_all_nth)

lemma attempt_scored:
  assumes "mirrorsConfig e" "config e = Some c" "attempt n e = (Inr (Some r), e')"
  shows "success r \<and> attempts r = n + 1 \<and> scoredWithin c r"
proof -
  from attempt_success [OF assms(3)] obtain tid s sel s' t where st:
    "selectVariantsForTier tid (e\<lparr>rngSeed := s\<rparr>) = (Inr sel, e\<lparr>rngSeed := s'\<rparr>)"
    "getTierById e tid = Inr t"
    "dle (num (fst (scoreRange t))) (calculateScore sel)"
    "dle (calculateScore sel) (num (snd (scoreRange t)))"
    "r = Success tid (tier_name t) (calculateScore sel) sel (n + 1)" by blast
  from selectVariantsForTier_sound [OF st(1)] obtain rvq where rvq:
    "remainingVariantQuotas e = Some rvq" "list_all2 (selectedFrom tid) rvq sel" by auto
  from assms(1,2) rvq(1) have shape: "list_all2 sameTrait (traits c) rvq"
    by (simp add: mirrorsConfig_def)
  have found: "find (\<lambda>t. tier_id t = tid) (tiers c) = Some t"
    using st(2) assms(2) by (simp add: getTierById_def split: option.splits)
  have "list_all2 (\<lambda>tc it. item_trait it = trait tc \<and> variant_tier (item_variant it) = tid
                           \<and> (\<exists>v\<in>set (variants tc). sameVariant v (item_variant it)))
          (traits c) sel"
    unfolding list_all2_conv_all_nth
  proof (intro conjI allI impI)
    show "length (traits c) = length sel"
      using shape rvq(2) by (simp add: list_all2_lengthD)
  next
    fix i assume i: "i < length (traits c)"
    then have tr: "sameTrait (traits c ! i) (rvq ! i)"
      using shape by (simp add: list_all2_conv_all_nth)
    have "i < length rvq" using i shape by (simp add: list_all2_lengthD)
    then have se: "selectedFrom tid (rvq ! i) (sel ! i)"
      using rvq(2) by (simp add: list_all2_conv_all_nth)
    show "item_trait (sel ! i) = trait (traits c ! i)"
      using tr se by (simp add: sameTrait_def selectedFrom_def)
    show "variant_tier (item_variant (sel ! i)) = tid"
      using se by (simp add: selectedFrom_def)
    have "list_all2 sameVariant (variants (traits c ! i)) (variants (rvq ! i))"
      using tr by (simp add: sameTrait_def)
    moreover have "item_variant (sel ! i) \<in> set (variants (rvq ! i))"
      using se by (simp add: selectedFrom_def)
    ultimately show "\<exists>v\<in>set (variants (traits c ! i)). sameVariant v (item_variant (sel ! i))"
      by (rule list_all2_member)
  qed
  moreover have "sum_list (map (\<lambda>it. \<bar>points (item_variant it)\<bar>) sel) \<le> 2 ^ 53
                 \<longrightarrow> calculateScore sel = num (sum_list (map (\<lambda>it. points (item_variant it)) sel))"
    using doubleSum_exact [of "map (\<lambda>it. points (item_variant it)) sel"]
    by (simp add: calculateScore_doubleSum comp_def)
  ultimately show ?thesis using st(3,4,5) found
    by (simp add: scoredWithin_def calculateScore_doubleSum)
qed

lemma generateLoop_scored:
  "mirrorsConfig e \<Longrightarrow> config e = Some c \<Longrightarrow> generateLoop m n e = (r, e') \<Longrightarrow> success r
   \<Longrightarrow> scoredWithin c r"
proof (induction "m - n" arbitrary: n e)
  case 0
  then have "\<not> n < m" by simp
  then have "generateLoop m n e = (Failure (FailedAfter m) n, e)"
    by (simp add: generateLoop.simps [of m n e])
  with "0.prems"(3,4) show ?case by auto
next
  case (Suc k)
  then have lt: "n < m" and k: "k = m - (n + 1)" by simp_all
  obtain a e1 where a: "attempt n e = (a, e1)" by (cases "attempt n e")
  have m1: "mirrorsConfig e1" using a Suc.prems(1) by (rule attempt_shape)
  have c1: "config e1 = Some c" using attempt_config [OF a] Suc.prems(2) by simp
  show ?case
  proof (cases a)
    case (Inl x)
    let ?e = "e1\<lparr>console := console e1 @ [AttemptFailed (n + 1) x]\<rparr>"
    from Suc.prems(3) lt a Inl have "generateLoop m (n + 1) ?e = (r, e')"
      by (simp add: generateLoop.simps [of m n e])
    moreover have "mirrorsConfig ?e" using m1 by (simp add: mirrorsConfig_console)
    moreover have "config ?e = Some c" using c1 by simp
    ultimately show ?thesis using Suc.hyps(1) [OF k] Suc.prems(4) by blast
  next
    case (Inr res)
    show ?thesis
    proof (cases res)
      case None
      with Suc.prems(3) lt a Inr have "generateLoop m (n + 1) e1 = (r, e')"
        by (simp add: generateLoop.simps [of m n e])
      with m1 c1 show ?thesis using Suc.hyps(1) [OF k] Suc.prems(4) by blast
    next
      case (Some r')
      with Suc.prems(3) lt a Inr have "r = r'"
        by (simp add: generateLoop.simps [of m n e])
      with a Inr Some attempt_scored [OF Suc.prems(1,2), of n r e1] show ?thesis by simp
    qed
  qed
qed

text \<open>
  \<^bold>\<open>C1, amended.\<close> For an engine whose quota store has the shape of its configuration,
  as \<^verbatim>\<open>loadConfig\<close> leaves it and every attempt keeps it, a successful result of
  \<^verbatim>\<open>generateNFT\<close> has as its score the double sum, added from the left, of the point
  values of its selected variants, which is their sum when the magnitudes of these points
  add up to at most \<open>2 ^ 53\<close>; the selections are, one per trait in the order of the
  configuration, variants that the configuration lists for that trait with these points,
  tagged for the result's tier; and the score lies within the bounds, both included, of the
  score range of the result's tier.
\<close>

theorem generateNFT_score_in_tier_range:
  assumes "mirrorsConfig e" and "config e = Some c"
    and "fst (generateNFT maxRetries e) = r" and "success r"
  shows "score r = doubleSum (map (\<lambda>it. points (item_variant it)) (selected r))
         \<and> (sum_list (map (\<lambda>it. \<bar>points (item_variant it)\<bar>) (selected r)) \<le> 2 ^ 53
              \<longrightarrow> score r = num (sum_list (map (\<lambda>it. points (item_variant it)) (selected r))))
         \<and> list_all2 (\<lambda>tc it. item_trait it = trait tc
                               \<and> variant_tier (item_variant it) = tierId r
                               \<and> (\<exists>v\<in>set (variants tc).
                                      variant_name v = variant_name (item_variant it)
                                      \<and> points v = points (item_variant it)))
              (traits c) (selected r)
         \<and> (\<exists>t. find (\<lambda>t. tier_id t = tierId r) (tiers c) = Some t
                 \<and> dle (num (fst (scoreRange t))) (score r)
                 \<and> dle (score r) (num (snd (scoreRange t))))"
proof -
  obtain e' where "generateLoop maxRetries 0 e = (r, e')"
    using assms(3) by (cases "generateLoop maxRetries 0 e") (simp add: generateNFT_def)
  from generateLoop_scored [OF assms(1,2) this assms(4)] have sw: "scoredWithin c r" .
  then have "list_all2 (\<lambda>tc it. item_trait it = trait tc
                               \<and> variant_tier (item_variant it) = tierId r
                               \<and> (\<exists>v\<in>set (variants tc). sameVariant v (item_variant it)))
              (traits c) (selected r)"
    by (simp add: scoredWithin_def)
  then have "list_all2 (\<lambda>tc it. item_trait it = trait tc
                               \<and> variant_tier (item_variant it) = tierId r
                               \<and> (\<exists>v\<in>set (variants tc).
                                      variant_name v = variant_name (item_variant it)
                                      \<and> points v = points (item_variant it)))
              (traits c) (selected r)"
    by (rule list_all2_mono) (auto simp: sameVariant_def)
  with sw show ?thesis by (auto simp: scoredWithin_def split: option.splits)
qed

lemma loaded_mirrorsConfig: "wellTyped c \<Longrightarrow> mirrorsConfig (loaded c)"
  by (simp add: loaded_eq mirrorsConfig_def sameTrait_def sameVariant_def list_all2_same)

lemma generateLoop_attempts:
  "generateLoop m n e = (r, e') \<Longrightarrow> n \<le> m
   \<Longrightarrow> (success r \<and> n < attempts r \<and> attempts r \<le> m) \<or> r = Failure (FailedAfter m) m"
proof (induction "m - n" arbitrary: n e)
  case 0
  then have mn: "m = n" and "\<not> n < m" by simp_all
  from this(2) have "generateLoop m n e = (Failure (FailedAfter m) n, e)"
    by (simp add: generateLoop.simps [of m n e])
  with "0.prems"(1) mn show ?case by auto
next
  case (Suc k)
  then have lt: "n < m" and k: "k = m - (n + 1)" by simp_all
  obtain a e1 where a: "attempt n e = (a, e1)" by (cases "attempt n e")
  show ?case
  proof (cases a)
    case (Inl x)
    let ?e = "e1\<lparr>console := console e1 @ [AttemptFailed (n + 1) x]\<rparr>"
    from Suc.prems(1) lt a Inl have "generateLoop m (n + 1) ?e = (r, e')"
      by (simp add: generateLoop.simps [of m n e])
    from Suc.hyps(1) [OF k this] lt show ?thesis by auto
  next
    case (Inr res)
    show ?thesis
    proof (cases res)
      case None
      with Suc.prems(1) lt a Inr have "generateLoop m (n + 1) e1 = (r, e')"
        by (simp add: generateLoop.simps [of m n e])
      from Suc.hyps(1) [OF k this] lt show ?thesis by auto
    next
      case (Some r')
      with Suc.prems(1) lt a Inr have r: "r = r'"
        by (simp add: generateLoop.simps [of m n e])
      from attempt_success [of n e r' e1] a Inr Some obtain tid nm sc sel
        where "r' = Success tid nm sc sel (n + 1)" by auto
      with r lt show ?thesis by simp
    qed
  qed
qed

text \<open>
  \<^bold>\<open>C5, amended.\<close> \<^verbatim>\<open>generateNFT\<close> always returns a result, after at most the ceiling
  number of attempts: a successful result counts between 1 and the ceiling attempts, and a
  result that is not successful is the failure whose error is the message built from the
  ceiling alone and whose attempt count is the ceiling. An error thrown in an attempt,
  whatever it is, is only printed, and the loop goes on with the next attempt.
\<close>

theorem generateNFT_bounded_retries:
  "attempts (fst (generateNFT maxRetries e)) \<le> maxRetries
   \<and> (success (fst (generateNFT maxRetries e)) \<longrightarrow> 1 \<le> attempts (fst (generateNFT maxRetries e)))
   \<and> (\<not> success (fst (generateNFT maxRetries e))
        \<longrightarrow> fst (generateNFT maxRetries e) = Failure (FailedAfter maxRetries) maxRetries)
   \<and> (n < maxRetries \<and> attempt n e0 = (Inl x, e1)
        \<longrightarrow> generateLoop maxRetries n e0
            = generateLoop maxRetries (n + 1)
                (e1\<lparr>console := console e1 @ [AttemptFailed (n + 1) x]\<rparr>))"
proof -
  obtain r e' where g: "generateLoop maxRetries 0 e = (r, e')"
    by (cases "generateLoop maxRetries 0 e")
  from generateLoop_attempts [OF g] have
    "(success r \<and> 0 < attempts r \<and> attempts r \<le> maxRetries)
     \<or> r = Failure (FailedAfter maxRetries) maxRetries" by simp
  then have "attempts r \<le> maxRetries \<and> (success r \<longrightarrow> 1 \<le> attempts r)
             \<and> (\<not> success r \<longrightarrow> r = Failure (FailedAfter maxRetries) maxRetries)"
    by auto
  moreover have "n < maxRetries \<and> attempt n e0 = (Inl x, e1)
        \<longrightarrow> generateLoop maxRetries n e0
            = generateLoop maxRetries (n + 1)
                (e1\<lparr>console := console e1 @ [AttemptFailed (n + 1) x]\<rparr>)"
    by (simp add: generateLoop.simps [of maxRetries n e0])
  ultimately show ?thesis using g by (simp add: generateNFT_def)
qed

section \<open>The commit when every id and name is used once\<close>

lemma setTierIndices_other: "x \<notin> tier_id ` set ts \<Longrightarrow> setTierIndices ts k m x = m x"
  by (induction ts arbitrary: k m) auto

lemma setTierIndices_nth:
  "distinct (map tier_id ts) \<Longrightarrow> i < length ts
   \<Longrightarrow> setTierIndices ts k m (tier_id (ts ! i)) = Some (k + i)"
proof (induction ts arbitrary: k m i)
  case Nil
  then show ?case by simp
next
  case (Cons t rest)
  show ?case
  proof (cases i)
    case 0
    from Cons.prems(1) have "tier_id t \<notin> tier_id ` set rest" by auto
    with 0 show ?thesis by (simp add: setTierIndices_other)
  next
    case (Suc j)
    with Cons.prems have "distinct (map tier_id rest)" "j < length rest" by auto
    from Cons.IH [OF this] Suc show ?thesis by simp
  qed
qed

lemma setVariantNames_eq:
  "setVariantNames vs ti m x = (if x \<in> variant_name ` set vs then Some ti else m x)"
  by (induction vs arbitrary: m) auto

lemma setTraitIndices_other:
  "x \<notin> set (concat (namesOf tcs)) \<Longrightarrow> setTraitIndices tcs k m x = m x"
  by (induction tcs arbitrary: k m) (auto simp: namesOf_def setVariantNames_eq)

lemma setTraitIndices_nth:
  "distinct (concat (namesOf tcs)) \<Longrightarrow> i < length tcs \<Longrightarrow> x \<in> set (namesOf tcs ! i)
   \<Longrightarrow> setTraitIndices tcs k m x = Some (k + i)"
proof (induction tcs arbitrary: k m i)
  case Nil
  then show ?case by simp
next
  case (Cons tc rest)
  show ?case
  proof (cases i)
    case 0
    with Cons.prems(3) have x: "x \<in> variant_name ` set (variants tc)" by (simp add: namesOf_def)
    with Cons.prems(1) have "x \<notin> set (concat (namesOf rest))" by (auto simp: namesOf_def)
    with x 0 show ?thesis by (simp add: setTraitIndices_other setVariantNames_eq)
  next
    case (Suc j)
    with Cons.prems have "distinct (concat (namesOf rest))" "j < length rest"
      "x \<in> set (namesOf rest ! j)" by (auto simp: namesOf_def)
    from Cons.IH [OF this] Suc show ?thesis by simp
  qed
qed

text \<open>A configuration with ids and names used once is loaded into an indexed engine.\<close>

lemma loaded_indexed:
  assumes "wellTyped c" "distinct (map tier_id (tiers c))" "distinct (concat (namesOf (traits c)))"
  shows "indexed (loaded c)"
proof -
  have t: "list_all (\<lambda>i. setTierIndices (tiers c) 0 Map.empty (map tier_id (tiers c) ! i) = Some i)
             [0..<length (map tier_id (tiers c))]"
    using setTierIndices_nth [OF assms(2), of _ 0 Map.empty] by (simp add: list_all_iff)
  have v: "list_all (\<lambda>i. list_all (\<lambda>x. setTraitIndices (traits c) 0 Map.empty x = Some i)
                             (namesOf (traits c) ! i))
             [0..<length (namesOf (traits c))]"
    using setTraitIndices_nth [OF assms(3), of _ _ 0 Map.empty]
    by (simp add: list_all_iff namesOf_def)
  from t v assms(2,3) show ?thesis
    by (simp add: indexed_def indexedBy_def loaded_eq [OF assms(1)])
qed

lemma map_if_update:
  assumes "distinct (map f xs)" "i < length xs"
  shows "map (\<lambda>x. if f x = f (xs ! i) then g x else x) xs = xs[i := g (xs ! i)]"
proof (rule nth_equalityI)
  show "length (map (\<lambda>x. if f x = f (xs ! i) then g x else x) xs) = length (xs[i := g (xs ! i)])"
    by simp
next
  fix j
  assume "j < length (map (\<lambda>x. if f x = f (xs ! i) then g x else x) xs)"
  then have j: "j < length xs" by simp
  have "f (xs ! j) = f (xs ! i) \<longleftrightarrow> j = i"
    using assms j nth_eq_iff_index_eq [of "map f xs" j i] by simp
  with j show "map (\<lambda>x. if f x = f (xs ! i) then g x else x) xs ! j = xs[i := g (xs ! i)] ! j"
    by (simp add: nth_list_update)
qed

lemma map_if_same_update:
  assumes "distinct xs" "i < length xs"
  shows "map (\<lambda>x. if x = xs ! i then g x else x) xs = xs[i := g (xs ! i)]"
  using map_if_update [of "\<lambda>x. x" xs i g] assms by simp

lemma findIndex_distinct:
  "distinct (map f xs) \<Longrightarrow> j < length xs \<Longrightarrow> findIndex (\<lambda>v. f v = f (xs ! j)) xs = Some j"
proof (induction xs arbitrary: j)
  case Nil
  then show ?case by simp
next
  case (Cons x rest)
  show ?case
  proof (cases j)
    case 0
    then show ?thesis by simp
  next
    case (Suc k)
    with Cons.prems have k: "k < length rest" and d: "distinct (map f rest)" by auto
    from Cons.prems(1) k have "f x \<noteq> f (rest ! k)" by (auto simp: image_iff)
    with Cons.IH [OF d k] Suc show ?thesis by simp
  qed
qed

lemma namesOf_commitTrait: "map variant_name (variants (commitTrait tc it)) = map variant_name (variants tc)"
  by (simp add: commitTrait_def comp_def if_distrib [of variant_name] cong: if_cong)

lemma namesOf_append: "namesOf (xs @ ys) = namesOf xs @ namesOf ys"
  by (simp add: namesOf_def)

lemma namesOf_map2_commitTrait:
  "length sel = length rvq \<Longrightarrow> namesOf (map2 commitTrait rvq sel) = namesOf rvq"
proof (induction rvq arbitrary: sel)
  case Nil
  then show ?case by (simp add: namesOf_def)
next
  case (Cons tc rest)
  then obtain it sel' where "sel = it # sel'" by (cases sel) auto
  with Cons show ?case using namesOf_commitTrait [of tc it] by (simp add: namesOf_def)
qed

text \<open>
  With the traits before it already committed, each item is found in its own trait, and
  the decrement lands on the chosen variant.
\<close>

lemma decrementVariant_at:
  assumes "j < length (variants tc)" "variants tc ! j = item_variant it"
    and "distinct (map variant_name (variants tc))"
  shows "decrementVariant (length pre) j (pre @ tc # rest) = pre @ commitTrait tc it # rest"
proof -
  from assms(3) have "distinct (variants tc)" by (simp add: distinct_map)
  from map_if_same_update [OF this assms(1), of "\<lambda>v. v\<lparr>variant_quota := decrement (variant_quota v)\<rparr>"]
  have "commitTrait tc it
        = tc\<lparr>variants := (variants tc)[j := (variants tc ! j)
                                          \<lparr>variant_quota := decrement (variant_quota (variants tc ! j))\<rparr>]\<rparr>"
    by (simp add: commitTrait_def assms(2))
  then show ?thesis by (simp add: decrementVariant_def Let_def)
qed

lemma decrementVariants_commit:
  assumes "list_all2 (selectedFrom tid) rest sel"
    and "remainingVariantQuotas e = Some (pre @ rest)"
    and "distinct (concat (namesOf (pre @ rest)))"
    and "\<And>i x. i < length (pre @ rest) \<Longrightarrow> x \<in> set (namesOf (pre @ rest) ! i)
               \<Longrightarrow> variantNameToTraitIndex e x = Some i"
  shows "decrementVariants sel e
         = (Inr (), e\<lparr>remainingVariantQuotas := Some (pre @ map2 commitTrait rest sel)\<rparr>)"
  using assms
proof (induction rest sel arbitrary: pre e rule: list_all2_induct)
  case Nil
  then show ?case by simp
next
  case (Cons tc rest' it sel')
  let ?k = "length pre"
  let ?x = "variant_name (item_variant it)"
  let ?tc' = "commitTrait tc it"
  let ?rest = "tc # rest'"
  from Cons.hyps(1) obtain j where j: "j < length (variants tc)" "variants tc ! j = item_variant it"
    by (auto simp: selectedFrom_def in_set_conv_nth)
  have names: "namesOf (pre @ ?rest) ! ?k = map variant_name (variants tc)"
    by (simp add: namesOf_def nth_append)
  from Cons.hyps(1) have "item_variant it \<in> set (variants tc)" by (simp add: selectedFrom_def)
  then have "?x \<in> set (namesOf (pre @ ?rest) ! ?k)" unfolding names by simp
  then have look: "variantNameToTraitIndex e ?x = Some ?k"
    by (intro Cons.prems(3)) simp
  from Cons.prems(2) have dist: "distinct (map variant_name (variants tc))"
    by (simp add: namesOf_def)
  from findIndex_distinct [OF dist j(1)] j(2)
  have find: "findIndex (\<lambda>v. variant_name v = ?x) (variants tc) = Some j" by simp
  have dec: "decrementVariant ?k j (pre @ ?rest) = (pre @ [?tc']) @ rest'"
    using decrementVariant_at [OF j dist, of pre rest'] by simp
  let ?e' = "e\<lparr>remainingVariantQuotas := Some ((pre @ [?tc']) @ rest')\<rparr>"
  have step: "decrementVariants (it # sel') e = decrementVariants sel' ?e'"
    using look Cons.prems(1) find dec by (simp add: nth_append)
  have same: "namesOf ((pre @ [?tc']) @ rest') = namesOf (pre @ ?rest)"
    using namesOf_commitTrait [of tc it] by (simp add: namesOf_def)
  have "decrementVariants sel' ?e'
        = (Inr (), ?e'\<lparr>remainingVariantQuotas :=
                         Some ((pre @ [?tc']) @ map2 commitTrait rest' sel')\<rparr>)"
  proof (rule Cons.IH)
    show "remainingVariantQuotas ?e' = Some ((pre @ [?tc']) @ rest')" by simp
    show "distinct (concat (namesOf ((pre @ [?tc']) @ rest')))"
      unfolding same by (rule Cons.prems(2))
    fix i x
    assume "i < length ((pre @ [?tc']) @ rest')" "x \<in> set (namesOf ((pre @ [?tc']) @ rest') ! i)"
    then have "i < length (pre @ ?rest)" "x \<in> set (namesOf (pre @ ?rest) ! i)"
      unfolding same by simp_all
    then show "variantNameToTraitIndex ?e' x = Some i"
      using Cons.prems(3) by simp
  qed
  with step show ?case by simp
qed

lemma indexedBy_tier:
  assumes "indexedBy tm vm (map tier_id rtq) names" "i < length rtq"
  shows "tm (tier_id (rtq ! i)) = Some i"
  using assms by (simp add: indexedBy_def list_all_iff)

lemma indexedBy_variant:
  assumes "indexedBy tm vm ids names" "i < length names" "x \<in> set (names ! i)"
  shows "vm x = Some i"
  using assms by (simp add: indexedBy_def list_all_iff)

text \<open>
  The commit for a tier of the store and one item selected from each trait: exactly the
  counter of that tier and the counters of the selected variants go down by one.
\<close>

lemma decrementQuotas_commit:
  assumes "indexed e" "remainingTierQuotas e = Some rtq" "remainingVariantQuotas e = Some rvq"
    and "tid \<in> tier_id ` set rtq" and "list_all2 (selectedFrom tid) rvq sel"
  shows "decrementQuotas tid sel e
         = (Inr (), e\<lparr>remainingTierQuotas := Some (commitTier tid rtq),
                       remainingVariantQuotas := Some (map2 commitTrait rvq sel)\<rparr>)"
proof -
  from assms(1-3)
  have ix: "indexedBy (tierIdToIndex e) (variantNameToTraitIndex e) (map tier_id rtq) (namesOf rvq)"
    by (simp add: indexed_def)
  from assms(4) obtain i where i: "i < length rtq" "tier_id (rtq ! i) = tid"
    by (auto simp: in_set_conv_nth)
  from indexedBy_tier [OF ix i(1)] i(2) have look: "tierIdToIndex e tid = Some i" by simp
  from ix have "distinct (map tier_id rtq)" by (simp add: indexedBy_def)
  from map_if_update [OF this i(1), of "\<lambda>t. t\<lparr>tier_quota := decrement (tier_quota t)\<rparr>"] i(2)
  have tier: "rtq[i := (rtq ! i)\<lparr>tier_quota := decrement (tier_quota (rtq ! i))\<rparr>] = commitTier tid rtq"
    by (simp add: commitTier_def)
  let ?e1 = "e\<lparr>remainingTierQuotas := Some (commitTier tid rtq)\<rparr>"
  have "decrementVariants sel ?e1
        = (Inr (), ?e1\<lparr>remainingVariantQuotas := Some ([] @ map2 commitTrait rvq sel)\<rparr>)"
  proof (rule decrementVariants_commit [where tid = tid])
    show "list_all2 (selectedFrom tid) rvq sel" by (rule assms(5))
    show "remainingVariantQuotas ?e1 = Some ([] @ rvq)" using assms(3) by simp
    show "distinct (concat (namesOf ([] @ rvq)))" using ix by (simp add: indexedBy_def)
    fix j x
    assume "j < length ([] @ rvq)" "x \<in> set (namesOf ([] @ rvq) ! j)"
    then have "j < length (namesOf rvq)" "x \<in> set (namesOf rvq ! j)" by (simp_all add: namesOf_def)
    from indexedBy_variant [OF ix this] show "variantNameToTraitIndex ?e1 x = Some j" by simp
  qed
  with look assms(2) i(1) tier show ?thesis by (simp add: decrementQuotas_def)
qed

lemma commit_indexed:
  assumes "indexed e" "remainingTierQuotas e = Some rtq" "remainingVariantQuotas e = Some rvq"
    and "length sel = length rvq"
  shows "indexed (e\<lparr>remainingTierQuotas := Some (commitTier tid rtq),
                    remainingVariantQuotas := Some (map2 commitTrait rvq sel)\<rparr>)"
proof -
  have "map tier_id (commitTier tid rtq) = map tier_id rtq"
    by (simp add: commitTier_def comp_def if_distrib [of tier_id] cong: if_cong)
  with assms namesOf_map2_commitTrait [OF assms(4)] show ?thesis by (simp add: indexed_def)
qed

lemma commitTier_nonneg:
  assumes "distinct (map tier_id rtq)" "t \<in> set rtq" "0 < tier_quota t"
    and "list_all (\<lambda>t. 0 \<le> tier_quota t) rtq"
  shows "list_all (\<lambda>t. 0 \<le> tier_quota t) (commitTier (tier_id t) rtq)"
proof -
  have "t' = t" if "t' \<in> set rtq" "tier_id t' = tier_id t" for t'
    using assms(1,2) that by (meson distinct_map inj_onD)
  then have "0 \<le> decrement (tier_quota t')" if "t' \<in> set rtq" "tier_id t' = tier_id t" for t'
    using that assms(3) decrement_nonneg by blast
  with assms(4) show ?thesis
    by (auto simp: commitTier_def list_all_iff)
qed

lemma commitTrait_nonneg:
  assumes "selectedFrom tid tc it" "list_all (\<lambda>v. 0 \<le> variant_quota v) (variants tc)"
  shows "list_all (\<lambda>v. 0 \<le> variant_quota v) (variants (commitTrait tc it))"
  using assms decrement_nonneg by (auto simp: commitTrait_def selectedFrom_def list_all_iff)

lemma map2_commitTrait_nonneg:
  "list_all2 (selectedFrom tid) rvq sel
   \<Longrightarrow> list_all (\<lambda>tc. list_all (\<lambda>v. 0 \<le> variant_quota v) (variants tc)) rvq
   \<Longrightarrow> list_all (\<lambda>tc. list_all (\<lambda>v. 0 \<le> variant_quota v) (variants tc))
         (map2 commitTrait rvq sel)"
proof (induction rvq sel rule: list_all2_induct)
  case Nil
  then show ?case by simp
next
  case (Cons tc rvq it sel)
  then show ?case using commitTrait_nonneg [of tid tc it] by simp
qed

lemma selectTierWeighted_member:
  assumes "selectTierWeighted e = (Inr tid, e')"
  shows "\<exists>rtq. remainingTierQuotas e = Some rtq
               \<and> list_ex (\<lambda>t. tier_id t = tid \<and> 0 < tier_quota t) rtq"
proof (cases "remainingTierQuotas e")
  case None
  with assms show ?thesis by (simp add: selectTierWeighted_def)
next
  case (Some rtq)
  let ?av = "filter (\<lambda>t. 0 < tier_quota t) rtq"
  from assms Some have ne: "?av \<noteq> []"
    by (auto simp: selectTierWeighted_def Let_def split: if_splits)
  let ?x = "dmul (fst (seededRandom e))
              (foldl (\<lambda>total p. dadd total (snd p)) (Finite 0) (map (\<lambda>t. (t, tierWeight t)) ?av))"
  have "tid \<in> tier_id ` set ?av"
  proof (cases "tierLoop ?x (map (\<lambda>t. (t, tierWeight t)) ?av)")
    case None
    with assms Some ne have "tid = tier_id (hd ?av)"
      by (simp add: selectTierWeighted_def Let_def case_prod_beta)
    with ne show ?thesis by (metis hd_in_set imageI)
  next
    case (Some i)
    with assms \<open>remainingTierQuotas e = Some rtq\<close> ne have "tid = i"
      by (simp add: selectTierWeighted_def Let_def case_prod_beta)
    with tierLoop_mem [OF Some] show ?thesis by (auto simp: image_iff)
  qed
  with Some show ?thesis by (auto simp: list_ex_iff)
qed

lemma indexed_seed: "indexed (e\<lparr>rngSeed := s\<rparr>) = indexed e"
  by (simp add: indexed_def split: option.splits)

lemma indexed_console: "indexed (e\<lparr>console := w\<rparr>) = indexed e"
  by (simp add: indexed_def split: option.splits)

text \<open>
  An attempt on an indexed engine: if it returns a result, the store is the old one with
  the result committed; if it throws or the score is out of range, the store is as it was.
  The lookup maps stay.
\<close>

lemma attempt_commit:
  assumes "indexed e" "remainingTierQuotas e = Some rtq" "remainingVariantQuotas e = Some rvq"
    and "attempt n e = (r, e')"
  shows "tierIdToIndex e' = tierIdToIndex e
         \<and> variantNameToTraitIndex e' = variantNameToTraitIndex e
         \<and> (case r of Inr (Some res) \<Rightarrow> success res \<and> committed rtq rvq res e'
                     | _ \<Rightarrow> untouched rtq rvq e')"
proof -
  obtain r1 e1 where t1: "selectTierWeighted e = (r1, e1)" by (cases "selectTierWeighted e")
  from selectTierWeighted_state [OF t1] obtain s where e1: "e1 = e\<lparr>rngSeed := s\<rparr>" by blast
  show ?thesis
  proof (cases r1)
    case (Inl x)
    with assms t1 e1 show ?thesis by (auto simp: attempt_def untouched_def)
  next
    case (Inr tid)
    from selectTierWeighted_member [OF t1 [unfolded Inr]] assms(2)
    have mem: "list_ex (\<lambda>t. tier_id t = tid \<and> 0 < tier_quota t) rtq" by simp
    obtain r2 e2 where t2: "selectVariantsForTier tid e1 = (r2, e2)"
      by (cases "selectVariantsForTier tid e1")
    from selectVariantsForTier_state [OF t2] e1 obtain s' where e2: "e2 = e\<lparr>rngSeed := s'\<rparr>"
      by auto
    show ?thesis
    proof (cases r2)
      case (Inl x)
      with assms t1 t2 Inr e2 show ?thesis by (auto simp: attempt_def untouched_def)
    next
      case sel: (Inr sel)
      from selectVariantsForTier_sound [OF t2 [unfolded sel]] assms(3) e1
      have picked: "list_all2 (selectedFrom tid) rvq sel" by simp
      have ix: "indexed e2" using assms(1) by (simp add: e2 indexed_seed)
      from mem have "tid \<in> tier_id ` set rtq" by (auto simp: list_ex_iff)
      from decrementQuotas_commit [OF ix _ _ this picked] assms(2,3)
      have t3: "decrementQuotas tid sel e2
                = (Inr (), e2\<lparr>remainingTierQuotas := Some (commitTier tid rtq),
                               remainingVariantQuotas := Some (map2 commitTrait rvq sel)\<rparr>)"
        by (simp add: e2)
      let ?e3 = "e2\<lparr>remainingTierQuotas := Some (commitTier tid rtq),
                     remainingVariantQuotas := Some (map2 commitTrait rvq sel)\<rparr>"
      show ?thesis
      proof (cases "isScoreInTierRange e2 (calculateScore sel) tid")
        case (Inl x)
        with assms t1 t2 Inr sel e2 show ?thesis
          by (auto simp: attempt_def Let_def untouched_def)
      next
        case range: (Inr b)
        show ?thesis
        proof (cases b)
          case False
          with assms t1 t2 Inr sel e2 range show ?thesis
            by (auto simp: attempt_def Let_def untouched_def)
        next
          case True
          from range obtain t where "getTierById e2 tid = Inr t"
            by (auto simp: isScoreInTierRange_def split: sum.splits)
          then have "getTierById ?e3 tid = Inr t"
            using getTierById_config [of ?e3 e2 tid] by simp
          with assms(4) t1 t2 t3 Inr sel range True
          have "r = Inr (Some (Success tid (tier_name t) (calculateScore sel) sel (n + 1)))"
            and "e' = ?e3"
            by (auto simp: attempt_def Let_def)
          with mem picked show ?thesis by (simp add: committed_def e2)
        qed
      qed
    qed
  qed
qed

lemma untouched_indexed:
  assumes "indexed e" "remainingTierQuotas e = Some rtq" "remainingVariantQuotas e = Some rvq"
    and "untouched rtq rvq e'" "tierIdToIndex e' = tierIdToIndex e"
    and "variantNameToTraitIndex e' = variantNameToTraitIndex e"
  shows "indexed e'"
  using assms by (simp add: indexed_def untouched_def)

lemma committed_indexed:
  assumes "indexed e" "remainingTierQuotas e = Some rtq" "remainingVariantQuotas e = Some rvq"
    and "committed rtq rvq res e'" "tierIdToIndex e' = tierIdToIndex e"
    and "variantNameToTraitIndex e' = variantNameToTraitIndex e"
  shows "indexed e'"
proof -
  from assms(4) have "length (selected res) = length rvq"
    by (auto simp: committed_def dest: list_all2_lengthD)
  from commit_indexed [OF assms(1-3) this, of "tierId res"] assms(4-6)
  show ?thesis by (simp add: indexed_def committed_def)
qed

lemma committed_nonNegative:
  assumes "indexed e" "nonNegative e" "remainingTierQuotas e = Some rtq"
    and "remainingVariantQuotas e = Some rvq" "committed rtq rvq res e'"
  shows "nonNegative e'"
proof -
  from assms(5) obtain t where t: "t \<in> set rtq" "tier_id t = tierId res" "0 < tier_quota t"
    by (auto simp: committed_def list_ex_iff)
  from assms(1,3,4) have "distinct (map tier_id rtq)" by (simp add: indexed_def indexedBy_def)
  from commitTier_nonneg [OF this t(1,3)] assms(2,3,4) t(2)
  have "list_all (\<lambda>t. 0 \<le> tier_quota t) (commitTier (tierId res) rtq)"
    by (simp add: nonNegative_def)
  moreover from assms(5) have "list_all2 (selectedFrom (tierId res)) rvq (selected res)"
    by (simp add: committed_def)
  from map2_commitTrait_nonneg [OF this] assms(2,3,4)
  have "list_all (\<lambda>tc. list_all (\<lambda>v. 0 \<le> variant_quota v) (variants tc))
          (map2 commitTrait rvq (selected res))"
    by (simp add: nonNegative_def)
  ultimately show ?thesis using assms(5) by (simp add: nonNegative_def committed_def)
qed

text \<open>
  \<^verbatim>\<open>generateNFT\<close> on an indexed engine: a successful result is committed exactly, a
  failed one leaves every counter as it was.
\<close>

lemma generateLoop_commit:
  "indexed e \<Longrightarrow> remainingTierQuotas e = Some rtq \<Longrightarrow> remainingVariantQuotas e = Some rvq
   \<Longrightarrow> generateLoop m n e = (res, e')
   \<Longrightarrow> tierIdToIndex e' = tierIdToIndex e
       \<and> variantNameToTraitIndex e' = variantNameToTraitIndex e
       \<and> (if success res then committed rtq rvq res e' else untouched rtq rvq e')"
proof (induction "m - n" arbitrary: n e)
  case 0
  then have "\<not> n < m" by simp
  then have "generateLoop m n e = (Failure (FailedAfter m) n, e)"
    by (simp add: generateLoop.simps [of m n e])
  with "0.prems" show ?case by (auto simp: untouched_def)
next
  case (Suc k)
  then have lt: "n < m" and k: "k = m - (n + 1)" by simp_all
  obtain a e1 where a: "attempt n e = (a, e1)" by (cases "attempt n e")
  note step = attempt_commit [OF Suc.prems(1-3) a]
  from step have maps: "tierIdToIndex e1 = tierIdToIndex e"
    "variantNameToTraitIndex e1 = variantNameToTraitIndex e" by simp_all
  show ?case
  proof (cases a)
    case (Inl x)
    let ?e = "e1\<lparr>console := console e1 @ [AttemptFailed (n + 1) x]\<rparr>"
    from step Inl have u: "untouched rtq rvq e1" by simp
    from Suc.prems(4) lt a Inl have run: "generateLoop m (n + 1) ?e = (res, e')"
      by (simp add: generateLoop.simps [of m n e])
    have "indexed ?e"
      using untouched_indexed [OF Suc.prems(1-3) u maps] by (simp add: indexed_console)
    moreover from u have "remainingTierQuotas ?e = Some rtq" "remainingVariantQuotas ?e = Some rvq"
      by (simp_all add: untouched_def)
    ultimately show ?thesis using Suc.hyps(1) [OF k _ _ _ run] maps by simp
  next
    case (Inr opt)
    show ?thesis
    proof (cases opt)
      case None
      from step Inr None have u: "untouched rtq rvq e1" by simp
      from Suc.prems(4) lt a Inr None have run: "generateLoop m (n + 1) e1 = (res, e')"
        by (simp add: generateLoop.simps [of m n e])
      have "indexed e1" by (rule untouched_indexed [OF Suc.prems(1-3) u maps])
      moreover from u have "remainingTierQuotas e1 = Some rtq" "remainingVariantQuotas e1 = Some rvq"
        by (simp_all add: untouched_def)
      ultimately show ?thesis using Suc.hyps(1) [OF k _ _ _ run] maps by simp
    next
      case (Some r')
      with Suc.prems(4) lt a Inr have "res = r'" "e' = e1"
        by (simp_all add: generateLoop.simps [of m n e])
      with step Inr Some maps show ?thesis by simp
    qed
  qed
qed

lemma generateNFT_commit:
  assumes "indexed e" "remainingTierQuotas e = Some rtq" "remainingVariantQuotas e = Some rvq"
  shows "if success (fst (generateNFT m e))
         then committed rtq rvq (fst (generateNFT m e)) (snd (generateNFT m e))
         else untouched rtq rvq (snd (generateNFT m e))"
proof -
  have "generateLoop m 0 e = (fst (generateNFT m e), snd (generateNFT m e))"
    by (simp add: generateNFT_def)
  from generateLoop_commit [OF assms this] show ?thesis by simp
qed

lemma generateNFT_keeps:
  assumes "indexed e" "nonNegative e"
  shows "indexed (snd (generateNFT m e)) \<and> nonNegative (snd (generateNFT m e))"
proof -
  from assms(1) obtain rtq rvq
    where s: "remainingTierQuotas e = Some rtq" "remainingVariantQuotas e = Some rvq"
    by (auto simp: indexed_def split: option.splits)
  let ?res = "fst (generateNFT m e)" and ?e' = "snd (generateNFT m e)"
  have run: "generateLoop m 0 e = (?res, ?e')" by (simp add: generateNFT_def)
  from generateLoop_commit [OF assms(1) s run]
  have maps: "tierIdToIndex ?e' = tierIdToIndex e"
    "variantNameToTraitIndex ?e' = variantNameToTraitIndex e"
    and c: "if success ?res then committed rtq rvq ?res ?e' else untouched rtq rvq ?e'"
    by simp_all
  show ?thesis
  proof (cases "success ?res")
    case True
    with c have "committed rtq rvq ?res ?e'" by simp
    from committed_indexed [OF assms(1) s this maps]
      committed_nonNegative [OF assms(1,2) s this]
    show ?thesis by simp
  next
    case False
    with c have u: "untouched rtq rvq ?e'" by simp
    from untouched_indexed [OF assms(1) s u maps] u assms(2) s
    show ?thesis by (simp add: nonNegative_def untouched_def)
  qed
qed

lemma generateMany_keeps:
  "indexed e \<Longrightarrow> nonNegative e
   \<Longrightarrow> indexed (snd (generateMany k e)) \<and> nonNegative (snd (generateMany k e))"
proof (induction k arbitrary: e)
  case 0
  then show ?case by simp
next
  case (Suc k)
  from generateNFT_keeps [OF Suc.prems, of 100]
  have "indexed (snd (generateNFT 100 e))" "nonNegative (snd (generateNFT 100 e))" by simp_all
  from Suc.IH [OF this] show ?case by (simp add: case_prod_beta)
qed

text \<open>
  For a configuration that names every tier and every variant once and whose quotas are
  not negative, no counter is negative after any number of calls of \<^verbatim>\<open>generateNFT()\<close>.
\<close>

lemma names_used_once_nonNegative:
  assumes "wellTyped c" "distinct (map tier_id (tiers c))" "distinct (concat (namesOf (traits c)))"
    and "list_all (\<lambda>t. 0 \<le> tier_quota t) (tiers c)"
    and "list_all (\<lambda>tc. list_all (\<lambda>v. 0 \<le> variant_quota v) (variants tc)) (traits c)"
  shows "nonNegative (snd (generateMany k (loaded c)))"
proof -
  have "indexed (loaded c)" by (rule loaded_indexed [OF assms(1-3)])
  moreover have "nonNegative (loaded c)"
    using assms(4,5) by (simp add: nonNegative_def loaded_eq [OF assms(1)])
  ultimately show ?thesis using generateMany_keeps by blast
qed

text \<open>
  On any engine, an attempt that ends for want of a tier or of a variant, or with a score
  outside the range, leaves every counter as it was: the commit is not reached.
\<close>

lemma decrementVariants_throws: "decrementVariants sel e = (Inl x, e') \<Longrightarrow> x = TypeError"
  by (induction sel arbitrary: e) (auto split: option.splits if_splits)

lemma decrementQuotas_throws: "decrementQuotas tid sel e = (Inl x, e') \<Longrightarrow> x = TypeError"
  by (auto simp: decrementQuotas_def split: option.splits if_splits dest: decrementVariants_throws)

lemma attempt_rejected:
  assumes "attempt n e = (r, e')"
    and "r = Inr None \<or> r = Inl NoAvailableTiers \<or> r = Inl (NoAvailableVariants tr tid')"
  shows "remainingTierQuotas e' = remainingTierQuotas e
         \<and> remainingVariantQuotas e' = remainingVariantQuotas e"
proof -
  obtain r1 e1 where t1: "selectTierWeighted e = (r1, e1)" by (cases "selectTierWeighted e")
  from selectTierWeighted_state [OF t1] obtain s where e1: "e1 = e\<lparr>rngSeed := s\<rparr>" by blast
  show ?thesis
  proof (cases r1)
    case (Inl x)
    with assms(1) t1 e1 show ?thesis by (auto simp: attempt_def)
  next
    case (Inr tid)
    obtain r2 e2 where t2: "selectVariantsForTier tid e1 = (r2, e2)"
      by (cases "selectVariantsForTier tid e1")
    from selectVariantsForTier_state [OF t2] e1 obtain s' where e2: "e2 = e\<lparr>rngSeed := s'\<rparr>"
      by auto
    show ?thesis
    proof (cases r2)
      case (Inl x)
      with assms(1) t1 t2 Inr e2 show ?thesis by (auto simp: attempt_def)
    next
      case sel: (Inr sel)
      show ?thesis
      proof (cases "isScoreInTierRange e2 (calculateScore sel) tid = Inr True")
        case False
        with assms(1) t1 t2 Inr sel e2 show ?thesis
          by (auto simp: attempt_def Let_def split: sum.splits bool.splits)
      next
        case True
        obtain r3 e3 where t3: "decrementQuotas tid sel e2 = (r3, e3)"
          by (cases "decrementQuotas tid sel e2")
        from True obtain t where "getTierById e2 tid = Inr t"
          by (auto simp: isScoreInTierRange_def split: sum.splits)
        moreover from decrementQuotas_state [OF t3] have "config e3 = config e2" by auto
        ultimately have t4: "getTierById e3 tid = Inr t" using getTierById_config [of e3 e2 tid] by simp
        have "r = Inl TypeError \<or> (\<exists>res. r = Inr (Some res))"
        proof (cases r3)
          case (Inl x)
          with t3 decrementQuotas_throws have "x = TypeError" by blast
          with assms(1) t1 t2 t3 Inr sel True Inl show ?thesis by (simp add: attempt_def Let_def)
        next
          case inr: (Inr u)
          with assms(1) t1 t2 t3 t4 Inr sel True show ?thesis by (auto simp: attempt_def Let_def)
        qed
        with assms(2) show ?thesis by auto
      qed
    qed
  qed
qed

section \<open>One generation on the example configurations\<close>

lemma decrement_one: "decrement 1 = 0"
  using decrement_small [of 1] by simp

lemma ownNames_scored: "doubleSum [1, 1, 1, 1, 1, 1] = Finite 6"
  using doubleSum_exact [of "[1, 1, 1, 1, 1, 1]"] by (simp add: num_def)

lemma ownNames_tier:
  "selectTierWeighted (loaded ownNames) = (Inr ''T5'', (loaded ownNames)\<lparr>rngSeed := 206659\<rparr>)"
proof -
  have r: "remainingTierQuotas (loaded ownNames) = Some (tiers ownNames)"
    by (simp add: loaded_eq [OF wellTyped_ownNames])
  have s: "rngSeed (loaded ownNames) = 42" by (simp add: loaded_eq [OF wellTyped_ownNames])
  show ?thesis
    by (simp add: selectTierWeighted_single [OF r] tiers_ownNames s nextSeed_def)
qed

lemma ownNames_score: "calculateScore ownSelection = Finite 6"
  by (simp add: calculateScore_doubleSum ownSelection_def expectedTraitNames_def ownNames_scored)

lemma ownNames_range:
  "isScoreInTierRange ((loaded ownNames)\<lparr>rngSeed := s\<rparr>) (Finite 6) ''T5'' = Inr True"
  by (simp add: isScoreInTierRange_def getTierById_def loaded_eq [OF wellTyped_ownNames]
        tiers_ownNames num_def)

lemma ownNames_tierInfo:
  "getTierById ownDone ''T5''
   = Inr \<lparr>tier_id = ''T5'', tier_name = ''Common'', tier_quota = 1, scoreRange = (0, 100)\<rparr>"
  by (simp add: ownDone_def getTierById_def loaded_eq [OF wellTyped_ownNames] tiers_ownNames)

lemma ownNames_decrement:
  "decrementQuotas ''T5'' ownSelection ((loaded ownNames)\<lparr>rngSeed := 139021\<rparr>)
   = (Inr (), ownDone)"
  by (simp add: decrementQuotas_def loaded_eq [OF wellTyped_ownNames] tiers_ownNames
        traits_ownNames traitsOf_def expectedTraitNames_def letters_def ownSelection_def
        ownDone_def decrementVariant_def decrement_one)

lemma ownNames_attempt:
  "attempt 0 (loaded ownNames)
   = (Inr (Some (Success ''T5'' ''Common'' (Finite 6) ownSelection 1)), ownDone)"
  by (simp add: attempt_def ownNames_tier ownNames_select_seed nextSeed_def ownNames_score
        ownNames_range ownNames_decrement ownNames_tierInfo)

lemma ownNames_generate:
  "generateNFT 100 (loaded ownNames) = (Success ''T5'' ''Common'' (Finite 6) ownSelection 1, ownDone)"
  by (simp add: generateNFT_def generateLoop.simps [of 100 0] ownNames_attempt)

text \<open>After the item, no tier has quota left: every further attempt throws.\<close>

lemma ownDone_attempt: "attempt n (ownDone\<lparr>console := w\<rparr>) = (Inl NoAvailableTiers, ownDone\<lparr>console := w\<rparr>)"
  by (simp add: attempt_def selectTierWeighted_def ownDone_def)

lemma ownDone_attempt_first: "attempt n ownDone = (Inl NoAvailableTiers, ownDone)"
  by (simp add: attempt_def selectTierWeighted_def ownDone_def)

lemma ownDone_generate:
  "generateNFT 2 ownDone
   = (Failure (FailedAfter 2) 2,
      ownDone\<lparr>console := console ownDone @ [AttemptFailed 1 NoAvailableTiers,
                                             AttemptFailed 2 NoAvailableTiers]\<rparr>)"
proof -
  let ?e1 = "ownDone\<lparr>console := console ownDone @ [AttemptFailed 1 NoAvailableTiers]\<rparr>"
  let ?e2 = "ownDone\<lparr>console := console ownDone @ [AttemptFailed 1 NoAvailableTiers,
                                                      AttemptFailed 2 NoAvailableTiers]\<rparr>"
  have s2: "generateLoop 2 2 ?e2 = (Failure (FailedAfter 2) 2, ?e2)"
    by (subst generateLoop.simps) simp
  have s1: "generateLoop 2 1 ?e1 = generateLoop 2 2 ?e2"
    by (subst generateLoop.simps) (simp add: ownDone_attempt numeral_2_eq_2)
  have s0: "generateLoop 2 0 ownDone = generateLoop 2 1 ?e1"
    by (subst generateLoop.simps) (simp add: ownDone_attempt_first)
  show ?thesis by (simp only: generateNFT_def s0 s1 s2)
qed

theorem generateNFT_score_in_tier_range_witness:
  "mirrorsConfig (loaded ownNames) \<and> config (loaded ownNames) = Some ownNames
   \<and> fst (generateNFT 100 (loaded ownNames))
       = Success ''T5'' ''Common'' (Finite 6) ownSelection 1
   \<and> success (Success ''T5'' ''Common'' (Finite 6) ownSelection 1)
   \<and> sum_list (map (\<lambda>it. \<bar>points (item_variant it)\<bar>) ownSelection) \<le> 2 ^ 53
   \<and> Finite 6 = num (sum_list (map (\<lambda>it. points (item_variant it)) ownSelection))
   \<and> (\<exists>t. find (\<lambda>t. tier_id t = ''T5'') (tiers ownNames) = Some t
           \<and> dle (num (fst (scoreRange t))) (Finite 6) \<and> dle (Finite 6) (num (snd (scoreRange t))))"
proof -
  have h1: "mirrorsConfig (loaded ownNames)"
    using wellTyped_ownNames by (rule loaded_mirrorsConfig)
  have h2: "config (loaded ownNames) = Some ownNames"
    by (simp add: loaded_eq [OF wellTyped_ownNames])
  have h3: "fst (generateNFT 100 (loaded ownNames))
            = Success ''T5'' ''Common'' (Finite 6) ownSelection 1"
    by (simp add: ownNames_generate)
  have h4: "success (Success ''T5'' ''Common'' (Finite 6) ownSelection 1)" by simp
  have h5: "sum_list (map (\<lambda>it. \<bar>points (item_variant it)\<bar>) ownSelection) \<le> 2 ^ 53"
    by (simp add: ownSelection_def expectedTraitNames_def)
  note c = generateNFT_score_in_tier_range [OF h1 h2 h3 h4, unfolded GenerationResult.sel]
  from c have imp: "sum_list (map (\<lambda>it. \<bar>points (item_variant it)\<bar>) ownSelection) \<le> 2 ^ 53
      \<longrightarrow> Finite 6 = num (sum_list (map (\<lambda>it. points (item_variant it)) ownSelection))"
    by (elim conjE)
  from c have ex: "\<exists>t. find (\<lambda>t. tier_id t = ''T5'') (tiers ownNames) = Some t
      \<and> dle (num (fst (scoreRange t))) (Finite 6) \<and> dle (Finite 6) (num (snd (scoreRange t)))"
    by (elim conjE)
  from imp h5
  have eq: "Finite 6 = num (sum_list (map (\<lambda>it. points (item_variant it)) ownSelection))"
    by (rule mp)
  show ?thesis by (intro conjI h1 h2 h3 h4 h5 eq ex)
qed

section \<open>A score that is not the sum of the points\<close>

lemma wellTyped_bigPoints: "wellTyped bigPoints"
  by (simp add: wellTyped_def bigPoints_def traitsOf_def traitOk_def variantOk_def
           expectedTraitNames_def letters_def)

lemma traits_bigPoints:
  "traits bigPoints =
     traitsOf (\<lambda>t n. \<lparr>variant_name = t @ ''_'' @ n, variant_tier = ''T5'',
                        points = (if t = ''socks'' then 2 ^ 53 else 1),
                        variant_quota = (if n = ''a'' then 1 else 0)\<rparr>)"
  by (simp add: bigPoints_def)

lemma tiers_bigPoints:
  "tiers bigPoints = [\<lparr>tier_id = ''T5'', tier_name = ''Common'', tier_quota = 1,
                       scoreRange = (2 ^ 53, 2 ^ 53)\<rparr>]"
  by (simp add: bigPoints_def)

lemma bigPoints_tier:
  "selectTierWeighted (loaded bigPoints) = (Inr ''T5'', (loaded bigPoints)\<lparr>rngSeed := 206659\<rparr>)"
proof -
  have r: "remainingTierQuotas (loaded bigPoints) = Some (tiers bigPoints)"
    by (simp add: loaded_eq [OF wellTyped_bigPoints])
  have s: "rngSeed (loaded bigPoints) = 42" by (simp add: loaded_eq [OF wellTyped_bigPoints])
  show ?thesis
    by (simp add: selectTierWeighted_single [OF r] tiers_bigPoints s nextSeed_def)
qed

lemma bigPoints_select:
  "selectVariantsForTier ''T5'' ((loaded bigPoints)\<lparr>rngSeed := 206659\<rparr>)
   = (Inr bigSelection, (loaded bigPoints)\<lparr>rngSeed := 139021\<rparr>)"
  by (simp add: loaded_eq [OF wellTyped_bigPoints] selectVariantsForTier_def traits_bigPoints
        traitsOf_def expectedTraitNames_def letters_def selectLoop_single bigSelection_def
        nextSeed_def
      del: selectLoop.simps(2))

text \<open>
  Adding 1 to \<open>2 ^ 53\<close> gives \<open>2 ^ 53\<close>: the sum \<open>2 ^ 53 + 1\<close> lies half way between two
  doubles and is rounded to the one with the even significand.
\<close>

lemma fl_above: "fl (2 ^ 53 + 1) = 2 ^ 53"
  by code_simp

lemma dadd_above: "dadd (Finite (2 ^ 53)) (num 1) = Finite (2 ^ 53)"
proof -
  have "\<bar>2 ^ 53 + 1 :: rat\<bar> \<le> 2 ^ 54" by simp
  then have "rnd (2 ^ 53 + 1) = Finite (rd (2 ^ 53 + 1))" by (intro rnd_Finite small_bound)
  moreover have "minNormal \<le> \<bar>2 ^ 53 + 1 :: rat\<bar>" by (simp add: minNormal_def)
  then have "rd (2 ^ 53 + 1) = fl (2 ^ 53 + 1)" by (rule rd_normal)
  ultimately have "rnd (2 ^ 53 + 1) = Finite (2 ^ 53)" by (simp only: fl_above)
  then show ?thesis by (simp only: num_def dadd.simps of_int_1)
qed

lemma dadd_first: "dadd (Finite 0) (num (2 ^ 53)) = Finite (2 ^ 53)"
  using dadd_num [of 0 "2 ^ 53"] by (simp add: num_def)

lemma bigPoints_scored: "doubleSum [2 ^ 53, 1, 1, 1, 1, 1] = Finite (2 ^ 53)"
  by (simp only: doubleSum_def foldl.simps dadd_first dadd_above)

lemma bigPoints_score: "calculateScore bigSelection = Finite (2 ^ 53)"
proof -
  have "map (\<lambda>it. points (item_variant it)) bigSelection = [2 ^ 53, 1, 1, 1, 1, 1]"
    by (simp add: bigSelection_def expectedTraitNames_def)
  then show ?thesis by (simp only: calculateScore_doubleSum bigPoints_scored)
qed

lemma bigPoints_range:
  "isScoreInTierRange ((loaded bigPoints)\<lparr>rngSeed := s\<rparr>) (Finite (2 ^ 53)) ''T5'' = Inr True"
  by (simp add: isScoreInTierRange_def getTierById_def loaded_eq [OF wellTyped_bigPoints]
        tiers_bigPoints num_def)

lemma bigPoints_tierInfo:
  "getTierById bigDone ''T5''
   = Inr \<lparr>tier_id = ''T5'', tier_name = ''Common'', tier_quota = 1,
          scoreRange = (2 ^ 53, 2 ^ 53)\<rparr>"
  by (simp add: bigDone_def getTierById_def loaded_eq [OF wellTyped_bigPoints] tiers_bigPoints)

lemma bigPoints_decrement:
  "decrementQuotas ''T5'' bigSelection ((loaded bigPoints)\<lparr>rngSeed := 139021\<rparr>)
   = (Inr (), bigDone)"
  by (simp add: decrementQuotas_def loaded_eq [OF wellTyped_bigPoints] tiers_bigPoints
        traits_bigPoints traitsOf_def expectedTraitNames_def letters_def bigSelection_def
        bigDone_def decrementVariant_def decrement_one)

lemma bigPoints_attempt:
  "attempt 0 (loaded bigPoints)
   = (Inr (Some (Success ''T5'' ''Common'' (Finite (2 ^ 53)) bigSelection 1)), bigDone)"
  by (simp only: attempt_def bigPoints_tier bigPoints_select bigPoints_score Let_def
        bigPoints_range bigPoints_decrement bigPoints_tierInfo prod.case sum.case bool.case
        tier.simps add_0)

lemma bigPoints_generate:
  "generateNFT 100 (loaded bigPoints)
   = (Success ''T5'' ''Common'' (Finite (2 ^ 53)) bigSelection 1, bigDone)"
  by (simp add: generateNFT_def generateLoop.simps [of 100 0] bigPoints_attempt)

text \<open>
  \<^bold>\<open>C1, as claimed, fails.\<close> The one item of \<open>bigPoints\<close> selects a variant of
  \<open>2 ^ 53\<close> points and five variants of 1 point. Each addition of 1 to \<open>2 ^ 53\<close> is
  rounded back to \<open>2 ^ 53\<close>, so the score is \<open>2 ^ 53\<close>; it is in the range of the tier
  and the item is committed, with a score that is not the sum \<open>2 ^ 53 + 5\<close> of the points
  of its variants.
\<close>

theorem score_is_not_the_sum:
  "fst (generateNFT 100 (loaded bigPoints))
     = Success ''T5'' ''Common'' (Finite (2 ^ 53)) bigSelection 1
   \<and> sum_list (map (\<lambda>it. points (item_variant it)) bigSelection) = 2 ^ 53 + 5
   \<and> score (fst (generateNFT 100 (loaded bigPoints)))
       \<noteq> num (sum_list (map (\<lambda>it. points (item_variant it)) bigSelection))"
proof -
  have s: "sum_list (map (\<lambda>it. points (item_variant it)) bigSelection) = 2 ^ 53 + 5"
    by (simp add: bigSelection_def expectedTraitNames_def)
  have "Finite (2 ^ 53) \<noteq> num (2 ^ 53 + 5)" by (simp add: num_def)
  with s show ?thesis by (simp only: bigPoints_generate fst_conv GenerationResult.sel) simp
qed

text \<open>
  \<^bold>\<open>C5, as claimed, fails.\<close> With every tier exhausted, both attempts of
  \<^verbatim>\<open>generateNFT(2)\<close> throw "No available tiers with remaining quota", as the console
  shows; the result carries the message "Failed to generate NFT after 2 attempts" and not
  that last error.
\<close>

theorem failed_result_drops_last_error:
  "last (console (snd (generateNFT 2 ownDone))) = AttemptFailed 2 NoAvailableTiers
   \<and> fst (generateNFT 2 ownDone) = Failure (FailedAfter 2) 2
   \<and> failure (fst (generateNFT 2 ownDone)) \<noteq> NoAvailableTiers"
  by (simp add: ownDone_generate)

theorem generateNFT_bounded_retries_witness:
  "success (fst (generateNFT 100 (loaded ownNames)))
   \<and> 1 \<le> attempts (fst (generateNFT 100 (loaded ownNames)))
   \<and> attempts (fst (generateNFT 100 (loaded ownNames))) \<le> 100
   \<and> \<not> success (fst (generateNFT 2 ownDone))
   \<and> fst (generateNFT 2 ownDone) = Failure (FailedAfter 2) 2
   \<and> (0::nat) < 2 \<and> attempt 0 ownDone = (Inl NoAvailableTiers, ownDone)
   \<and> generateLoop 2 0 ownDone
       = generateLoop 2 (0 + 1)
           (ownDone\<lparr>console := console ownDone @ [AttemptFailed (0 + 1) NoAvailableTiers]\<rparr>)"
proof -
  have a: "attempt 0 ownDone = (Inl NoAvailableTiers, ownDone)"
    by (rule ownDone_attempt_first)
  have s: "success (fst (generateNFT 100 (loaded ownNames)))" by (simp add: ownNames_generate)
  have f: "\<not> success (fst (generateNFT 2 ownDone))" by (simp add: ownDone_generate)
  show ?thesis
    using generateNFT_bounded_retries [where maxRetries = 100 and e = "loaded ownNames"]
      generateNFT_bounded_retries [where maxRetries = 2 and e = ownDone and n = 0
        and ?e0.0 = ownDone and x = NoAvailableTiers and ?e1.0 = ownDone] a s f
    by simp
qed

section \<open>Variant names shared between traits\<close>

lemma traits_sharedNames:
  "traits sharedNames =
     traitsOf (\<lambda>t n. \<lparr>variant_name = n, variant_tier = ''T5'', points = 1,
                        variant_quota = (if n = ''a'' then 1 else 0)\<rparr>)"
  by (simp add: sharedNames_def)

lemma tiers_sharedNames:
  "tiers sharedNames = [\<lparr>tier_id = ''T5'', tier_name = ''Common'', tier_quota = 1,
                         scoreRange = (0, 100)\<rparr>]"
  by (simp add: sharedNames_def)

lemma sharedNames_tier:
  "selectTierWeighted (loaded sharedNames)
   = (Inr ''T5'', (loaded sharedNames)\<lparr>rngSeed := 206659\<rparr>)"
proof -
  have r: "remainingTierQuotas (loaded sharedNames) = Some (tiers sharedNames)"
    by (simp add: loaded_eq [OF wellTyped_sharedNames])
  have s: "rngSeed (loaded sharedNames) = 42" by (simp add: loaded_eq [OF wellTyped_sharedNames])
  show ?thesis
    by (simp add: selectTierWeighted_single [OF r] tiers_sharedNames s nextSeed_def)
qed

lemma sharedNames_select:
  "selectVariantsForTier ''T5'' ((loaded sharedNames)\<lparr>rngSeed := 206659\<rparr>)
   = (Inr sharedSelection, (loaded sharedNames)\<lparr>rngSeed := 139021\<rparr>)"
  by (simp add: loaded_eq [OF wellTyped_sharedNames] selectVariantsForTier_def traits_sharedNames
        traitsOf_def expectedTraitNames_def letters_def selectLoop_single sharedSelection_def
        nextSeed_def
      del: selectLoop.simps(2))

lemma sharedNames_score: "calculateScore sharedSelection = Finite 6"
  by (simp add: calculateScore_doubleSum sharedSelection_def expectedTraitNames_def
        ownNames_scored)

lemma sharedNames_range:
  "isScoreInTierRange ((loaded sharedNames)\<lparr>rngSeed := s\<rparr>) (Finite 6) ''T5'' = Inr True"
  by (simp add: isScoreInTierRange_def getTierById_def loaded_eq [OF wellTyped_sharedNames]
        tiers_sharedNames num_def)

lemma sharedNames_tierInfo:
  "getTierById sharedDone ''T5''
   = Inr \<lparr>tier_id = ''T5'', tier_name = ''Common'', tier_quota = 1, scoreRange = (0, 100)\<rparr>"
  by (simp add: sharedDone_def getTierById_def loaded_eq [OF wellTyped_sharedNames]
        tiers_sharedNames)

lemma sharedNames_decrement:
  "decrementQuotas ''T5'' sharedSelection ((loaded sharedNames)\<lparr>rngSeed := 139021\<rparr>)
   = (Inr (), sharedDone)"
  by (simp add: decrementQuotas_def loaded_eq [OF wellTyped_sharedNames] tiers_sharedNames
        traits_sharedNames traitsOf_def expectedTraitNames_def letters_def sharedSelection_def
        sharedDone_def decrementVariant_def Let_def decrement_small)

lemma sharedNames_attempt:
  "attempt 0 (loaded sharedNames)
   = (Inr (Some (Success ''T5'' ''Common'' (Finite 6) sharedSelection 1)), sharedDone)"
  by (simp add: attempt_def sharedNames_tier sharedNames_select sharedNames_score
        sharedNames_range sharedNames_decrement sharedNames_tierInfo)

lemma sharedNames_generate:
  "generateNFT 100 (loaded sharedNames)
   = (Success ''T5'' ''Common'' (Finite 6) sharedSelection 1, sharedDone)"
  by (simp add: generateNFT_def generateLoop.simps [of 100 0] sharedNames_attempt)

lemma sharedDone_counters:
  "map_option (map (\<lambda>tc. (trait tc, variant_quota (hd (variants tc)))))
     (remainingVariantQuotas sharedDone)
   = Some [(''socks'', 1), (''shoes'', 1), (''pants'', 1), (''shirt'', 1), (''face'', 1),
           (''hat'', - 5)]"
  by (simp add: sharedDone_def traitsOf_def expectedTraitNames_def letters_def)

lemma sharedNames_nonneg:
  "list_all (\<lambda>t. 0 \<le> tier_quota t) (tiers sharedNames)
   \<and> list_all (\<lambda>tc. list_all (\<lambda>v. 0 \<le> variant_quota v) (variants tc)) (traits sharedNames)"
  by (simp add: tiers_sharedNames traits_sharedNames traitsOf_def expectedTraitNames_def
        letters_def)

lemma generateLoop_shape:
  "mirrorsConfig e \<Longrightarrow> generateLoop m n e = (r, e') \<Longrightarrow> mirrorsConfig e' \<and> config e' = config e"
proof (induction "m - n" arbitrary: n e)
  case 0
  then have "\<not> n < m" by simp
  then have "generateLoop m n e = (Failure (FailedAfter m) n, e)"
    by (simp add: generateLoop.simps [of m n e])
  with "0.prems" show ?case by auto
next
  case (Suc k)
  then have lt: "n < m" and k: "k = m - (n + 1)" by simp_all
  obtain a e1 where a: "attempt n e = (a, e1)" by (cases "attempt n e")
  have m1: "mirrorsConfig e1" using a Suc.prems(1) by (rule attempt_shape)
  have c1: "config e1 = config e" using attempt_config [OF a] by simp
  show ?case
  proof (cases a)
    case (Inl x)
    let ?e = "e1\<lparr>console := console e1 @ [AttemptFailed (n + 1) x]\<rparr>"
    from Suc.prems(2) lt a Inl have "generateLoop m (n + 1) ?e = (r, e')"
      by (simp add: generateLoop.simps [of m n e])
    moreover have "mirrorsConfig ?e" using m1 by (simp add: mirrorsConfig_console)
    ultimately have "mirrorsConfig e' \<and> config e' = config ?e" using Suc.hyps(1) [OF k] by blast
    with c1 show ?thesis by simp
  next
    case (Inr res)
    show ?thesis
    proof (cases res)
      case None
      with Suc.prems(2) lt a Inr have "generateLoop m (n + 1) e1 = (r, e')"
        by (simp add: generateLoop.simps [of m n e])
      with m1 have "mirrorsConfig e' \<and> config e' = config e1" using Suc.hyps(1) [OF k] by blast
      with c1 show ?thesis by simp
    next
      case (Some r')
      with Suc.prems(2) lt a Inr have "e' = e1"
        by (simp add: generateLoop.simps [of m n e])
      with m1 c1 show ?thesis by simp
    qed
  qed
qed

lemma generateNFT_shape:
  "mirrorsConfig e \<Longrightarrow> mirrorsConfig (snd (generateNFT m e)) \<and> config (snd (generateNFT m e)) = config e"
  using generateLoop_shape [of e m 0 "fst (generateLoop m 0 e)" "snd (generateLoop m 0 e)"]
  by (simp add: generateNFT_def)

text \<open>
  \<^bold>\<open>C2 on the code.\<close> \<open>sharedNames\<close> passes \<^verbatim>\<open>validateConfig\<close>. Its one item selects
  the variant \<open>a\<close> of each of the six traits, every one with quota 1. The commit looks
  each of them up by name alone, finds the trait that was listed last, and decrements the
  variant \<open>a\<close> of \<open>hat\<close> six times: the counters of the five other chosen variants
  stay at 1. Where every tier id and every variant name is used once the commit is exact
  (\<open>generateNFT_commit\<close>), and an attempt that ends without a result never reaches it
  (\<open>attempt_rejected\<close>).
\<close>

theorem commit_decrements_another_variant:
  "fst (loadConfig sharedNames RarityEngine) = Inr ()
   \<and> fst (generateNFT 100 (loaded sharedNames)) = Success ''T5'' ''Common'' (Finite 6) sharedSelection 1
   \<and> map (\<lambda>it. (item_trait it, variant_name (item_variant it))) sharedSelection
      = [(''socks'', ''a''), (''shoes'', ''a''), (''pants'', ''a''), (''shirt'', ''a''),
         (''face'', ''a''), (''hat'', ''a'')]
   \<and> map_option (map (\<lambda>tc. (trait tc, variant_quota (hd (variants tc)))))
        (remainingVariantQuotas (loaded sharedNames))
      = Some [(''socks'', 1), (''shoes'', 1), (''pants'', 1), (''shirt'', 1), (''face'', 1),
              (''hat'', 1)]
   \<and> map_option (map (\<lambda>tc. (trait tc, variant_quota (hd (variants tc)))))
        (remainingVariantQuotas (snd (generateNFT 100 (loaded sharedNames))))
      = Some [(''socks'', 1), (''shoes'', 1), (''pants'', 1), (''shirt'', 1), (''face'', 1),
              (''hat'', - 5)]"
proof -
  have "map_option (map (\<lambda>tc. (trait tc, variant_quota (hd (variants tc)))))
          (remainingVariantQuotas (loaded sharedNames))
        = Some [(''socks'', 1), (''shoes'', 1), (''pants'', 1), (''shirt'', 1), (''face'', 1),
                (''hat'', 1)]"
    by (simp add: loaded_eq [OF wellTyped_sharedNames] traits_sharedNames traitsOf_def
          expectedTraitNames_def letters_def)
  moreover have "map (\<lambda>it. (item_trait it, variant_name (item_variant it))) sharedSelection
      = [(''socks'', ''a''), (''shoes'', ''a''), (''pants'', ''a''), (''shirt'', ''a''),
         (''face'', ''a''), (''hat'', ''a'')]"
    by (simp add: sharedSelection_def expectedTraitNames_def)
  ultimately show ?thesis
    by (simp add: loadConfig_typed [OF wellTyped_sharedNames] sharedNames_generate
          sharedDone_counters)
qed

text \<open>
  \<^bold>\<open>C9 on the code.\<close> Every quota of \<open>sharedNames\<close> is 0 or 1. After its one item
  the counter of the variant \<open>a\<close> of \<open>hat\<close> is \<open>- 5\<close>: the commit decremented it
  while it was 0 and below. Where every tier id and every variant name is used once no
  counter goes below zero (\<open>names_used_once_nonNegative\<close>).
\<close>

theorem counter_below_zero:
  "list_all (\<lambda>t. 0 \<le> tier_quota t) (tiers sharedNames)
   \<and> list_all (\<lambda>tc. list_all (\<lambda>v. 0 \<le> variant_quota v) (variants tc)) (traits sharedNames)
   \<and> success (fst (generateNFT 100 (loaded sharedNames)))
   \<and> map_option (map (\<lambda>tc. list_all (\<lambda>v. 0 \<le> variant_quota v) (variants tc)))
        (remainingVariantQuotas (snd (generateNFT 100 (loaded sharedNames))))
      = Some [True, True, True, True, True, False]"
proof -
  have "map_option (map (\<lambda>tc. list_all (\<lambda>v. 0 \<le> variant_quota v) (variants tc)))
          (remainingVariantQuotas sharedDone)
        = Some [True, True, True, True, True, False]"
    by (simp add: sharedDone_def traitsOf_def expectedTraitNames_def letters_def)
  with sharedNames_nonneg show ?thesis by (simp add: sharedNames_generate)
qed

section \<open>The console does not steer the engine\<close>

lemma selectTierWeighted_console:
  "selectTierWeighted (e\<lparr>console := w\<rparr>)
   = (fst (selectTierWeighted e), (snd (selectTierWeighted e))\<lparr>console := w\<rparr>)"
  by (simp add: selectTierWeighted_def seededRandom_eq Let_def split: option.splits)

lemma selectLoop_console:
  "selectLoop tid tcs acc (e\<lparr>console := w\<rparr>)
   = (fst (selectLoop tid tcs acc e), (snd (selectLoop tid tcs acc e))\<lparr>console := w\<rparr>)"
proof (induction tcs arbitrary: acc e)
  case Nil
  then show ?case by simp
next
  case (Cons tc rest)
  have "\<forall>a s. selectLoop tid rest a (e\<lparr>console := w, rngSeed := s\<rparr>)
               = (fst (selectLoop tid rest a (e\<lparr>rngSeed := s\<rparr>)),
                  (snd (selectLoop tid rest a (e\<lparr>rngSeed := s\<rparr>)))\<lparr>console := w\<rparr>)"
  proof (intro allI)
    fix a s
    show "selectLoop tid rest a (e\<lparr>console := w, rngSeed := s\<rparr>)
          = (fst (selectLoop tid rest a (e\<lparr>rngSeed := s\<rparr>)),
             (snd (selectLoop tid rest a (e\<lparr>rngSeed := s\<rparr>)))\<lparr>console := w\<rparr>)"
    proof -
      have sw: "e\<lparr>console := w, rngSeed := s\<rparr> = e\<lparr>rngSeed := s, console := w\<rparr>" by simp
      show ?thesis unfolding sw by (rule Cons.IH)
    qed
  qed
  then show ?case by (simp add: Let_def seededRandom_eq)
qed

lemma selectVariantsForTier_console:
  "selectVariantsForTier tid (e\<lparr>console := w\<rparr>)
   = (fst (selectVariantsForTier tid e), (snd (selectVariantsForTier tid e))\<lparr>console := w\<rparr>)"
  by (simp add: selectVariantsForTier_def selectLoop_console split: option.splits)

lemma decrementVariants_console:
  "decrementVariants sel (e\<lparr>console := w\<rparr>)
   = (fst (decrementVariants sel e), (snd (decrementVariants sel e))\<lparr>console := w\<rparr>)"
proof (induction sel arbitrary: e)
  case Nil
  then show ?case by simp
next
  case (Cons it rest)
  have "\<forall>q. decrementVariants rest (e\<lparr>console := w, remainingVariantQuotas := q\<rparr>)
             = (fst (decrementVariants rest (e\<lparr>remainingVariantQuotas := q\<rparr>)),
                (snd (decrementVariants rest (e\<lparr>remainingVariantQuotas := q\<rparr>)))
                  \<lparr>console := w\<rparr>)"
  proof (intro allI)
    fix q
    show "decrementVariants rest (e\<lparr>console := w, remainingVariantQuotas := q\<rparr>)
          = (fst (decrementVariants rest (e\<lparr>remainingVariantQuotas := q\<rparr>)),
             (snd (decrementVariants rest (e\<lparr>remainingVariantQuotas := q\<rparr>)))
               \<lparr>console := w\<rparr>)"
    proof -
      have sw: "e\<lparr>console := w, remainingVariantQuotas := q\<rparr>
                = e\<lparr>remainingVariantQuotas := q, console := w\<rparr>" by simp
      show ?thesis unfolding sw by (rule Cons.IH)
    qed
  qed
  then show ?case by (simp split: option.splits)
qed

lemma decrementQuotas_console:
  "decrementQuotas tid sel (e\<lparr>console := w\<rparr>)
   = (fst (decrementQuotas tid sel e), (snd (decrementQuotas tid sel e))\<lparr>console := w\<rparr>)"
proof -
  have "\<forall>q. decrementVariants sel (e\<lparr>console := w, remainingTierQuotas := q\<rparr>)
             = (fst (decrementVariants sel (e\<lparr>remainingTierQuotas := q\<rparr>)),
                (snd (decrementVariants sel (e\<lparr>remainingTierQuotas := q\<rparr>)))
                  \<lparr>console := w\<rparr>)"
  proof (intro allI)
    fix q
    show "decrementVariants sel (e\<lparr>console := w, remainingTierQuotas := q\<rparr>)
          = (fst (decrementVariants sel (e\<lparr>remainingTierQuotas := q\<rparr>)),
             (snd (decrementVariants sel (e\<lparr>remainingTierQuotas := q\<rparr>)))
               \<lparr>console := w\<rparr>)"
    proof -
      have sw: "e\<lparr>console := w, remainingTierQuotas := q\<rparr>
                = e\<lparr>remainingTierQuotas := q, console := w\<rparr>" by simp
      show ?thesis unfolding sw by (rule decrementVariants_console)
    qed
  qed
  then show ?thesis
    by (simp add: decrementQuotas_def split: option.splits)
qed

lemma getTierById_console: "getTierById (e\<lparr>console := w\<rparr>) tid = getTierById e tid"
  by (simp add: getTierById_def)

lemma isScoreInTierRange_console:
  "isScoreInTierRange (e\<lparr>console := w\<rparr>) s tid = isScoreInTierRange e s tid"
  by (simp add: isScoreInTierRange_def getTierById_console)

lemma attempt_console:
  "attempt n (e\<lparr>console := w\<rparr>) = (fst (attempt n e), (snd (attempt n e))\<lparr>console := w\<rparr>)"
  by (simp add: attempt_def selectTierWeighted_console selectVariantsForTier_console
        isScoreInTierRange_console decrementQuotas_console getTierById_console Let_def
        case_prod_beta
      split: sum.splits bool.splits)

lemma generateLoop_console:
  "fst (generateLoop m n (e\<lparr>console := w\<rparr>)) = fst (generateLoop m n e)
   \<and> (snd (generateLoop m n (e\<lparr>console := w\<rparr>)))\<lparr>console := []\<rparr>
     = (snd (generateLoop m n e))\<lparr>console := []\<rparr>"
proof (induction "m - n" arbitrary: n e w)
  case 0
  then have "\<not> n < m" by simp
  then show ?case by (simp add: generateLoop.simps [of m n])
next
  case (Suc k)
  then have lt: "n < m" and k: "k = m - (n + 1)" by simp_all
  obtain a e1 where a: "attempt n e = (a, e1)" by (cases "attempt n e")
  then have aw: "attempt n (e\<lparr>console := w\<rparr>) = (a, e1\<lparr>console := w\<rparr>)"
    by (simp add: attempt_console)
  show ?case
  proof (cases a)
    case (Inl x)
    let ?p = "[AttemptFailed (n + 1) x]"
    have l: "generateLoop m n (e\<lparr>console := w\<rparr>) = generateLoop m (n + 1) (e1\<lparr>console := w @ ?p\<rparr>)"
      using lt aw Inl by (simp add: generateLoop.simps [of m n])
    have r: "generateLoop m n e = generateLoop m (n + 1) (e1\<lparr>console := console e1 @ ?p\<rparr>)"
      using lt a Inl by (simp add: generateLoop.simps [of m n])
    from Suc.hyps(1) [OF k, where e = e1 and w = "w @ ?p"]
      Suc.hyps(1) [OF k, where e = e1 and w = "console e1 @ ?p"]
    show ?thesis by (simp add: l r)
  next
    case (Inr res)
    show ?thesis
    proof (cases res)
      case None
      have l: "generateLoop m n (e\<lparr>console := w\<rparr>) = generateLoop m (n + 1) (e1\<lparr>console := w\<rparr>)"
        using lt aw Inr None by (simp add: generateLoop.simps [of m n])
      have r: "generateLoop m n e = generateLoop m (n + 1) e1"
        using lt a Inr None by (simp add: generateLoop.simps [of m n])
      from Suc.hyps(1) [OF k, where e = e1 and w = w] show ?thesis by (simp add: l r)
    next
      case (Some r')
      have l: "generateLoop m n (e\<lparr>console := w\<rparr>) = (r', e1\<lparr>console := w\<rparr>)"
        using lt aw Inr Some by (simp add: generateLoop.simps [of m n])
      have r: "generateLoop m n e = (r', e1)"
        using lt a Inr Some by (simp add: generateLoop.simps [of m n])
      show ?thesis by (simp add: l r)
    qed
  qed
qed

lemma generateMany_console:
  "e1\<lparr>console := []\<rparr> = e2\<lparr>console := []\<rparr>
   \<Longrightarrow> fst (generateMany k e1) = fst (generateMany k e2)
       \<and> (snd (generateMany k e1))\<lparr>console := []\<rparr> = (snd (generateMany k e2))\<lparr>console := []\<rparr>"
proof (induction k arbitrary: e1 e2)
  case 0
  then show ?case by simp
next
  case (Suc k)
  have "e1 = (e1\<lparr>console := []\<rparr>)\<lparr>console := console e1\<rparr>" by simp
  also have "\<dots> = e2\<lparr>console := console e1\<rparr>" using Suc.prems by simp
  finally have e1: "e1 = e2\<lparr>console := console e1\<rparr>" .
  have step: "fst (generateNFT 100 e1) = fst (generateNFT 100 e2)
              \<and> (snd (generateNFT 100 e1))\<lparr>console := []\<rparr> = (snd (generateNFT 100 e2))\<lparr>console := []\<rparr>"
    using generateLoop_console [where m = 100 and n = 0 and e = e2 and w = "console e1"] e1
    by (simp add: generateNFT_def)
  from Suc.IH [of "snd (generateNFT 100 e1)" "snd (generateNFT 100 e2)"] step
  show ?case by (simp add: case_prod_beta)
qed

lemma loadConfig_console:
  "fst (loadConfig c (e\<lparr>console := w\<rparr>)) = fst (loadConfig c e)
   \<and> (snd (loadConfig c (e\<lparr>console := w\<rparr>)))\<lparr>console := []\<rparr>
     = (snd (loadConfig c e))\<lparr>console := []\<rparr>"
  by (simp add: loadConfig_def initializeQuotas_def buildLookupMaps_def Let_def case_prod_beta
      split: option.splits)

text \<open>
  \<^bold>\<open>C6.\<close> Two engines, each made by the constructor, which sets the seed 42, and
  loaded with the same configuration, return the same sequence of results over any number
  of calls of \<^verbatim>\<open>generateNFT()\<close>, whatever had been printed to the console before each
  was loaded: the results are equal as values, so they agree on every field.
\<close>

theorem generateMany_deterministic:
  assumes "loadConfig c (RarityEngine\<lparr>console := printed1\<rparr>) = (Inr (), e1)"
    and "loadConfig c (RarityEngine\<lparr>console := printed2\<rparr>) = (Inr (), e2)"
  shows "fst (generateMany k e1) = fst (generateMany k e2)"
proof -
  have "e1\<lparr>console := []\<rparr> = (snd (loadConfig c RarityEngine))\<lparr>console := []\<rparr>"
    using loadConfig_console [where c = c and e = RarityEngine and w = printed1] assms(1)
    by simp
  moreover have "e2\<lparr>console := []\<rparr> = (snd (loadConfig c RarityEngine))\<lparr>console := []\<rparr>"
    using loadConfig_console [where c = c and e = RarityEngine and w = printed2] assms(2)
    by simp
  ultimately have "e1\<lparr>console := []\<rparr> = e2\<lparr>console := []\<rparr>" by simp
  then show ?thesis using generateMany_console by blast
qed

lemma loadConfig_typed_console:
  assumes "wellTyped c"
  shows "loadConfig c (RarityEngine\<lparr>console := w\<rparr>)
         = (Inr (), (loaded c)\<lparr>console := w @ console (loaded c)\<rparr>)"
proof -
  obtain ws where ws: "validateConfig (configJson c) = (None, ws)"
    using validateConfig_typed_eq [OF assms] by blast
  show ?thesis
    by (simp add: loaded_def loadConfig_def RarityEngine_def initializeQuotas_def
          buildLookupMaps_def Let_def ws)
qed

theorem generateMany_deterministic_witness:
  "loadConfig ownNames (RarityEngine\<lparr>console := []\<rparr>)
     = (Inr (), (loaded ownNames)\<lparr>console := [] @ console (loaded ownNames)\<rparr>)
   \<and> loadConfig ownNames (RarityEngine\<lparr>console := [AttemptFailed 1 NoAvailableTiers]\<rparr>)
     = (Inr (), (loaded ownNames)\<lparr>console := [AttemptFailed 1 NoAvailableTiers]
                                               @ console (loaded ownNames)\<rparr>)
   \<and> fst (generateMany 3 ((loaded ownNames)\<lparr>console := [] @ console (loaded ownNames)\<rparr>))
     = fst (generateMany 3 ((loaded ownNames)\<lparr>console := [AttemptFailed 1 NoAvailableTiers]
                                                          @ console (loaded ownNames)\<rparr>))"
  using generateMany_deterministic
          [OF loadConfig_typed_console [OF wellTyped_ownNames, of "[]"]
              loadConfig_typed_console [OF wellTyped_ownNames,
                                        of "[AttemptFailed 1 NoAvailableTiers]"],
           of 3]
    loadConfig_typed_console [OF wellTyped_ownNames]
  by blast

section \<open>The completion check\<close>

lemma foldl_tier_quota:
  "foldl (\<lambda>total t. dadd total (num (tier_quota t))) z ts
   = foldl (\<lambda>total n. dadd total (num n)) z (map tier_quota ts)"
  by (induction ts arbitrary: z) simp_all

lemma getGenerationStatus_total:
  assumes "getGenerationStatus e = Inr status" "remainingTierQuotas e = Some rtq"
  shows "totalRemaining status = doubleSum (map tier_quota rtq)"
  using assms
  by (auto simp: getGenerationStatus_def Let_def foldl_tier_quota doubleSum_def
           split: option.splits sum.splits)

lemma validateFinalGeneration_unfold:
  assumes "getGenerationStatus e = Inr status"
    and "remainingTierQuotas e = Some rtq" and "remainingVariantQuotas e = Some rvq"
  shows "validateFinalGeneration e =
         (if dne (doubleSum (map tier_quota rtq)) (Finite 0)
          then Inl (GenerationIncomplete (doubleSum (map tier_quota rtq)))
          else if filter (\<lambda>t. 0 < tier_quota t) rtq \<noteq> []
          then Inl (TiersRemaining (map tier_id (filter (\<lambda>t. 0 < tier_quota t) rtq)))
          else checkVariantQuotas rvq)"
  using getGenerationStatus_total [OF assms(1,2)] assms
  by (simp add: validateFinalGeneration_def Let_def)

lemma checkVariantQuotas_find:
  "checkVariantQuotas rvq =
   (case find (\<lambda>tc. filter (\<lambda>v. 0 < variant_quota v) (variants tc) \<noteq> []) rvq of
      None \<Rightarrow> Inr True
    | Some tc \<Rightarrow> Inl (VariantsRemaining (trait tc)
                       (map variant_name (filter (\<lambda>v. 0 < variant_quota v) (variants tc)))))"
  by (induction rvq) (simp_all add: Let_def)

lemma checkVariantQuotas_True:
  "checkVariantQuotas rvq = Inr True
   \<longleftrightarrow> (\<forall>tc\<in>set rvq. \<forall>v\<in>set (variants tc). \<not> 0 < variant_quota v)"
  by (induction rvq) (auto simp: Let_def filter_empty_conv)

lemma checkVariantQuotas_single:
  "filter (\<lambda>v. 0 < variant_quota v) (concat (map variants rvq)) = [v]
   \<Longrightarrow> \<exists>tc\<in>set rvq. v \<in> set (variants tc)
          \<and> checkVariantQuotas rvq = Inl (VariantsRemaining (trait tc) [variant_name v])"
proof (induction rvq)
  case Nil
  then show ?case by simp
next
  case (Cons tc rest)
  let ?p = "\<lambda>v. 0 < variant_quota v"
  from Cons.prems have app: "filter ?p (variants tc) @ filter ?p (concat (map variants rest)) = [v]"
    by simp
  show ?case
  proof (cases "filter ?p (variants tc) = []")
    case True
    with app have "filter ?p (concat (map variants rest)) = [v]" by simp
    from Cons.IH [OF this] True show ?thesis by (auto simp: Let_def)
  next
    case False
    with app have one: "filter ?p (variants tc) = [v]"
      by (cases "filter ?p (variants tc)") auto
    then have "v \<in> set (filter ?p (variants tc))" by simp
    then have "v \<in> set (variants tc)" by simp
    with one show ?thesis by (simp add: Let_def)
  qed
qed

lemma doubleSum_zeros: "\<forall>n\<in>set ns. n = 0 \<Longrightarrow> doubleSum ns = Finite 0"
proof -
  assume z: "\<forall>n\<in>set ns. n = 0"
  then have a: "sum_list (map abs ns) = 0" by (induction ns) simp_all
  from z have s: "sum_list ns = 0" by (induction ns) simp_all
  from a have "sum_list (map abs ns) \<le> 2 ^ 53" by simp
  from doubleSum_exact [OF this] s show ?thesis by (simp add: num_def)
qed

lemma all_zero_iff:
  assumes "\<forall>t\<in>set rtq. 0 \<le> tier_quota t"
  shows "\<not> dne (doubleSum (map tier_quota rtq)) (Finite 0)
           \<and> filter (\<lambda>t. 0 < tier_quota t) rtq = []
         \<longleftrightarrow> (\<forall>t\<in>set rtq. tier_quota t = 0)"
proof
  assume "\<not> dne (doubleSum (map tier_quota rtq)) (Finite 0)
          \<and> filter (\<lambda>t. 0 < tier_quota t) rtq = []"
  then have "\<forall>t\<in>set rtq. \<not> 0 < tier_quota t" by (simp add: filter_empty_conv)
  with assms show "\<forall>t\<in>set rtq. tier_quota t = 0" by force
next
  assume z: "\<forall>t\<in>set rtq. tier_quota t = 0"
  then have "\<forall>n\<in>set (map tier_quota rtq). n = 0" by simp
  then have "doubleSum (map tier_quota rtq) = Finite 0" by (rule doubleSum_zeros)
  then have "\<not> dne (doubleSum (map tier_quota rtq)) (Finite 0)" by (simp add: dne_def)
  moreover have "filter (\<lambda>t. 0 < tier_quota t) rtq = []" using z by (simp add: filter_empty_conv)
  ultimately show "\<not> dne (doubleSum (map tier_quota rtq)) (Finite 0)
                   \<and> filter (\<lambda>t. 0 < tier_quota t) rtq = []"
    by simp
qed

text \<open>
  The first stage compares the double sum, not the sum: the counters \<open>2 ^ 53\<close>, 1 and
  \<open>- 2 ^ 53\<close> add up to 1, their double sum is 0, and the check goes on to the second
  stage.
\<close>

lemma dadd_back: "dadd (Finite (2 ^ 53)) (num (- (2 ^ 53))) = Finite 0"
  using dadd_num [of "2 ^ 53" "- (2 ^ 53)"] by (simp add: num_def)

lemma rounded_sum_is_zero:
  "doubleSum [2 ^ 53, 1, - (2 ^ 53)] = Finite 0 \<and> sum_list [2 ^ 53, 1, - (2 ^ 53)] = (1::int)"
proof -
  have "doubleSum [2 ^ 53, 1, - (2 ^ 53)] = Finite 0"
    by (simp only: doubleSum_def foldl.simps dadd_first dadd_above dadd_back)
  then show ?thesis by simp
qed

text \<open>
  \<^bold>\<open>C7, as claimed, fails.\<close> Right after \<open>ownNames\<close> is loaded its tier has one item
  left and six variants have quota 1. The completion check throws "Generation incomplete:
  1 NFTs remaining", a message that lists no tier and no variant.
\<close>

theorem incomplete_run_error_lists_nothing:
  "validateFinalGeneration (loaded ownNames) = Inl (GenerationIncomplete (Finite 1))
   \<and> map_option (map (\<lambda>t. (tier_id t, tier_quota t))) (remainingTierQuotas (loaded ownNames))
     = Some [(''T5'', 1)]
   \<and> enumerated (GenerationIncomplete (Finite 1)) = []"
  by (simp add: validateFinalGeneration_def getGenerationStatus_def
        loaded_eq [OF wellTyped_ownNames] tiers_ownNames Let_def num_def rnd_one dne_def)

text \<open>
  \<^bold>\<open>C7, amended.\<close> On a loaded engine the completion check goes in three stages. The
  remaining tier counters are added up as doubles, from the left; the result is their sum
  when their magnitudes add up to at most \<open>2 ^ 53\<close>. If that double sum is not zero the
  check fails with an error that gives the double sum and lists nothing. Else, if a tier
  counter is above zero, it fails with an error listing the ids of the tiers with a counter
  above zero. Else it fails for the first trait that has a variant counter above zero, with
  an error naming that trait and listing its variants with a counter above zero, and
  succeeds if there is none. When no counter is negative it succeeds exactly when all
  remaining counters are zero. In particular, with all tiers at zero and exactly one
  variant with a counter above zero, it fails with an error naming that variant.
\<close>

theorem validateFinalGeneration_staged:
  assumes "getGenerationStatus e = Inr status"
    and "remainingTierQuotas e = Some rtq" and "remainingVariantQuotas e = Some rvq"
  shows "(sum_list (map (\<lambda>t. \<bar>tier_quota t\<bar>) rtq) \<le> 2 ^ 53
          \<longrightarrow> doubleSum (map tier_quota rtq) = num (sum_list (map tier_quota rtq)))
         \<and> (dne (doubleSum (map tier_quota rtq)) (Finite 0)
            \<longrightarrow> validateFinalGeneration e
                = Inl (GenerationIncomplete (doubleSum (map tier_quota rtq))))
         \<and> (\<not> dne (doubleSum (map tier_quota rtq)) (Finite 0)
             \<and> filter (\<lambda>t. 0 < tier_quota t) rtq \<noteq> []
            \<longrightarrow> validateFinalGeneration e
                = Inl (TiersRemaining (map tier_id (filter (\<lambda>t. 0 < tier_quota t) rtq))))
         \<and> (\<not> dne (doubleSum (map tier_quota rtq)) (Finite 0)
             \<and> filter (\<lambda>t. 0 < tier_quota t) rtq = []
            \<longrightarrow> validateFinalGeneration e
                = (case find (\<lambda>tc. filter (\<lambda>v. 0 < variant_quota v) (variants tc) \<noteq> []) rvq of
                     None \<Rightarrow> Inr True
                   | Some tc \<Rightarrow>
                       Inl (VariantsRemaining (trait tc)
                              (map variant_name
                                 (filter (\<lambda>v. 0 < variant_quota v) (variants tc))))))
         \<and> ((\<forall>t\<in>set rtq. 0 \<le> tier_quota t)
             \<and> (\<forall>tc\<in>set rvq. \<forall>v\<in>set (variants tc). 0 \<le> variant_quota v)
            \<longrightarrow> (validateFinalGeneration e = Inr True
                 \<longleftrightarrow> (\<forall>t\<in>set rtq. tier_quota t = 0)
                     \<and> (\<forall>tc\<in>set rvq. \<forall>v\<in>set (variants tc). variant_quota v = 0)))
         \<and> ((\<forall>t\<in>set rtq. tier_quota t = 0)
             \<and> filter (\<lambda>v. 0 < variant_quota v) (concat (map variants rvq)) = [v]
            \<longrightarrow> (\<exists>tc\<in>set rvq. v \<in> set (variants tc)
                   \<and> validateFinalGeneration e
                       = Inl (VariantsRemaining (trait tc) [variant_name v])))"
proof -
  note u = validateFinalGeneration_unfold [OF assms]
  let ?total = "doubleSum (map tier_quota rtq)"
  have s0: "sum_list (map (\<lambda>t. \<bar>tier_quota t\<bar>) rtq) \<le> 2 ^ 53
            \<longrightarrow> ?total = num (sum_list (map tier_quota rtq))"
  proof
    assume "sum_list (map (\<lambda>t. \<bar>tier_quota t\<bar>) rtq) \<le> 2 ^ 53"
    then have "sum_list (map abs (map tier_quota rtq)) \<le> 2 ^ 53" by (simp add: comp_def)
    then show "?total = num (sum_list (map tier_quota rtq))" by (rule doubleSum_exact)
  qed
  have s1: "dne ?total (Finite 0)
            \<longrightarrow> validateFinalGeneration e = Inl (GenerationIncomplete ?total)"
    by (simp add: u)
  have s2: "\<not> dne ?total (Finite 0) \<and> filter (\<lambda>t. 0 < tier_quota t) rtq \<noteq> []
            \<longrightarrow> validateFinalGeneration e
                = Inl (TiersRemaining (map tier_id (filter (\<lambda>t. 0 < tier_quota t) rtq)))"
    by (simp add: u)
  have s3: "\<not> dne ?total (Finite 0) \<and> filter (\<lambda>t. 0 < tier_quota t) rtq = []
            \<longrightarrow> validateFinalGeneration e
                = (case find (\<lambda>tc. filter (\<lambda>v. 0 < variant_quota v) (variants tc) \<noteq> []) rvq of
                     None \<Rightarrow> Inr True
                   | Some tc \<Rightarrow>
                       Inl (VariantsRemaining (trait tc)
                              (map variant_name
                                 (filter (\<lambda>v. 0 < variant_quota v) (variants tc)))))"
    by (simp add: u checkVariantQuotas_find)
  have s4: "(\<forall>t\<in>set rtq. 0 \<le> tier_quota t)
             \<and> (\<forall>tc\<in>set rvq. \<forall>v\<in>set (variants tc). 0 \<le> variant_quota v)
            \<longrightarrow> (validateFinalGeneration e = Inr True
                 \<longleftrightarrow> (\<forall>t\<in>set rtq. tier_quota t = 0)
                     \<and> (\<forall>tc\<in>set rvq. \<forall>v\<in>set (variants tc). variant_quota v = 0))"
  proof (intro impI)
    assume nn: "(\<forall>t\<in>set rtq. 0 \<le> tier_quota t)
                \<and> (\<forall>tc\<in>set rvq. \<forall>v\<in>set (variants tc). 0 \<le> variant_quota v)"
    then have t: "\<not> dne ?total (Finite 0) \<and> filter (\<lambda>t. 0 < tier_quota t) rtq = []
                  \<longleftrightarrow> (\<forall>t\<in>set rtq. tier_quota t = 0)"
      by (intro all_zero_iff) simp
    have v: "(\<forall>tc\<in>set rvq. \<forall>v\<in>set (variants tc). \<not> 0 < variant_quota v)
             \<longleftrightarrow> (\<forall>tc\<in>set rvq. \<forall>v\<in>set (variants tc). variant_quota v = 0)"
      using nn by force
    have "validateFinalGeneration e = Inr True
          \<longleftrightarrow> (\<not> dne ?total (Finite 0) \<and> filter (\<lambda>t. 0 < tier_quota t) rtq = [])
              \<and> checkVariantQuotas rvq = Inr True"
      by (auto simp: u)
    then show "validateFinalGeneration e = Inr True
                 \<longleftrightarrow> (\<forall>t\<in>set rtq. tier_quota t = 0)
                     \<and> (\<forall>tc\<in>set rvq. \<forall>v\<in>set (variants tc). variant_quota v = 0)"
      by (simp only: t v checkVariantQuotas_True)
  qed
  have s5: "(\<forall>t\<in>set rtq. tier_quota t = 0)
             \<and> filter (\<lambda>v. 0 < variant_quota v) (concat (map variants rvq)) = [v]
            \<longrightarrow> (\<exists>tc\<in>set rvq. v \<in> set (variants tc)
                   \<and> validateFinalGeneration e
                       = Inl (VariantsRemaining (trait tc) [variant_name v]))"
  proof (intro impI)
    assume a: "(\<forall>t\<in>set rtq. tier_quota t = 0)
               \<and> filter (\<lambda>v. 0 < variant_quota v) (concat (map variants rvq)) = [v]"
    then have "\<forall>t\<in>set rtq. 0 \<le> tier_quota t" by simp
    from all_zero_iff [OF this] a
    have z: "\<not> dne ?total (Finite 0)" "filter (\<lambda>t. 0 < tier_quota t) rtq = []"
      by simp_all
    from a checkVariantQuotas_single [of rvq v]
    obtain tc where "tc \<in> set rvq" "v \<in> set (variants tc)"
      "checkVariantQuotas rvq = Inl (VariantsRemaining (trait tc) [variant_name v])" by blast
    then show "\<exists>tc\<in>set rvq. v \<in> set (variants tc)
                   \<and> validateFinalGeneration e
                       = Inl (VariantsRemaining (trait tc) [variant_name v])"
      using z by (auto simp: u)
  qed
  show ?thesis by (intro conjI s0 s1 s2 s3 s4 s5)
qed

lemma wellTyped_oneLeft: "wellTyped oneLeft"
  by (simp add: wellTyped_def oneLeft_def traitsOf_def traitOk_def variantOk_def
           expectedTraitNames_def letters_def)

lemma oneLeft_fields:
  "remainingTierQuotas (loaded oneLeft)
   = Some [\<lparr>tier_id = ''T5'', tier_name = ''Common'', tier_quota = 0, scoreRange = (0, 100)\<rparr>]"
  "remainingVariantQuotas (loaded oneLeft) = Some (traits oneLeft)"
  "getGenerationStatus (loaded oneLeft)
   = Inr \<lparr>totalGenerated = Finite 0, totalRemaining = Finite 0, status_collectionSize = 0,
          progress = NaN,
          tierStatuses = [\<lparr>status_id = ''T5'', status_name = ''Common'', remaining = 0,
                           originalQuota = 0\<rparr>]\<rparr>"
  by (simp_all add: getGenerationStatus_def loaded_eq [OF wellTyped_oneLeft] Let_def)
     (simp_all add: oneLeft_def num_def dsub_def rnd_zero)

lemma oneLeft_single:
  "filter (\<lambda>v. 0 < variant_quota v) (concat (map variants (traits oneLeft)))
   = [\<lparr>variant_name = ''hat_a'', variant_tier = ''T5'', points = 1, variant_quota = 1\<rparr>]"
  by (simp add: oneLeft_def traitsOf_def expectedTraitNames_def letters_def)

theorem validateFinalGeneration_staged_witness:
  "getGenerationStatus (loaded oneLeft)
     = Inr \<lparr>totalGenerated = Finite 0, totalRemaining = Finite 0, status_collectionSize = 0,
          progress = NaN,
            tierStatuses = [\<lparr>status_id = ''T5'', status_name = ''Common'', remaining = 0,
                             originalQuota = 0\<rparr>]\<rparr>
   \<and> remainingVariantQuotas (loaded oneLeft) = Some (traits oneLeft)
   \<and> filter (\<lambda>v. 0 < variant_quota v) (concat (map variants (traits oneLeft)))
     = [\<lparr>variant_name = ''hat_a'', variant_tier = ''T5'', points = 1, variant_quota = 1\<rparr>]
   \<and> validateFinalGeneration (loaded oneLeft) = Inl (VariantsRemaining ''hat'' [''hat_a''])
   \<and> validateFinalGeneration (loaded oneLeft) \<noteq> Inr True"
proof -
  let ?v = "\<lparr>variant_name = ''hat_a'', variant_tier = ''T5'', points = 1, variant_quota = 1\<rparr>"
  let ?rtq = "[\<lparr>tier_id = ''T5'', tier_name = ''Common'', tier_quota = 0,
                 scoreRange = (0, 100)\<rparr>]"
  have hyp: "(\<forall>t\<in>set ?rtq. tier_quota t = 0)
             \<and> filter (\<lambda>v. 0 < variant_quota v) (concat (map variants (traits oneLeft))) = [?v]"
    using oneLeft_single by simp
  note c = validateFinalGeneration_staged [OF oneLeft_fields(3) oneLeft_fields(1)
                                              oneLeft_fields(2), of ?v]
  from c have "(\<forall>t\<in>set ?rtq. tier_quota t = 0)
             \<and> filter (\<lambda>v. 0 < variant_quota v) (concat (map variants (traits oneLeft))) = [?v]
            \<longrightarrow> (\<exists>tc\<in>set (traits oneLeft). ?v \<in> set (variants tc)
                   \<and> validateFinalGeneration (loaded oneLeft)
                       = Inl (VariantsRemaining (trait tc) [variant_name ?v]))"
    by (elim conjE)
  from this hyp
  have "\<exists>tc\<in>set (traits oneLeft). ?v \<in> set (variants tc)
          \<and> validateFinalGeneration (loaded oneLeft)
              = Inl (VariantsRemaining (trait tc) [variant_name ?v])"
    by (rule mp)
  then obtain tc where tc: "tc \<in> set (traits oneLeft)" "?v \<in> set (variants tc)"
    "validateFinalGeneration (loaded oneLeft) = Inl (VariantsRemaining (trait tc) [''hat_a''])"
    by auto
  from tc(1,2) have "trait tc = ''hat''"
    by (auto simp: oneLeft_def traitsOf_def expectedTraitNames_def letters_def)
  with tc(3) oneLeft_fields oneLeft_single show ?thesis by simp
qed

section \<open>An empty list of tiers\<close>

text \<open>
  \<^bold>\<open>C8 on the code.\<close> \<open>noTiers\<close> has six well-formed traits and an empty list of
  tiers. \<^verbatim>\<open>validateConfig\<close> reports no error for it, \<^verbatim>\<open>loadConfig\<close> succeeds, and
  every attempt to generate then throws for want of a tier; the loader's own
  \<^verbatim>\<open>validateBasicStructure\<close> rejects the same document.
\<close>

theorem empty_tiers_accepted:
  "getProp (configJson noTiers) ''tiers'' = Some (JArr [])
   \<and> fst (validateConfig (configJson noTiers)) = None
   \<and> loadConfig noTiers RarityEngine = (Inr (), loaded noTiers)
   \<and> fst (attempt 0 (loaded noTiers)) = Inl NoAvailableTiers
   \<and> validateBasicStructure (configJson noTiers) = Some InvalidOrMissingTiers"
proof -
  have "getProp (configJson noTiers) ''tiers'' = Some (JArr [])"
    by (simp add: configJson_def noTiers_def)
  moreover have "fst (attempt 0 (loaded noTiers)) = Inl NoAvailableTiers"
  proof -
    have "remainingTierQuotas (loaded noTiers) = Some (tiers noTiers)"
      by (simp add: loaded_eq [OF wellTyped_noTiers])
    then have "remainingTierQuotas (loaded noTiers) = Some []" by (simp add: noTiers_def)
    then show ?thesis by (simp add: attempt_def selectTierWeighted_def)
  qed
  moreover have "validateBasicStructure (configJson noTiers) = Some InvalidOrMissingTiers"
    by (simp add: validateBasicStructure_def configJson_def noTiers_def ownNames_def)
  ultimately show ?thesis
    using validateConfig_typed [OF wellTyped_noTiers] loadConfig_typed [OF wellTyped_noTiers]
    by simp
qed

theorem empty_tiers_accepted_witness:
  "fst (validateConfig (configJson noTiers)) = None
   \<and> validateBasicStructure (configJson noTiers) \<noteq> None"
  using empty_tiers_accepted by simp

end
